theory Spec2Isabelle
  imports Complex_Main "HOL-Library.Multiset"
begin

section \<open>Python values, errors and indexing\<close>

text \<open>
  The module is \<^verbatim>\<open>centermask/demo/predictor_batch_4.py\<close>.  Every exception the modelled
  functions can raise is a value of \<open>error\<close>; a function that may raise returns
  \<open>error + 'a\<close> with \<open>Inl\<close> for the exception.
\<close>

datatype error = IndexError | KeyError | ZeroDivisionError

text \<open>
  \<^verbatim>\<open>seq[i]\<close> on a Python list or a one-dimensional tensor: an index in \<open>[0, n)\<close> reads
  from the front, an index in \<open>[-n, 0)\<close> counts from the end, anything else raises
  \<^verbatim>\<open>IndexError\<close>.
\<close>

definition py_getitem :: "'a list \<Rightarrow> int \<Rightarrow> error + 'a" where
  "py_getitem xs i =
     (let n = int (length xs) in
      if 0 \<le> i \<and> i < n then Inr (xs ! nat i)
      else if - n \<le> i \<and> i < 0 then Inr (xs ! nat (i + n))
      else Inl IndexError)"

text \<open>\<^verbatim>\<open>tensor[idx]\<close> with an int64 index tensor of non-negative entries (a gather of rows).\<close>

definition rows_in_range :: "'a list \<Rightarrow> nat list \<Rightarrow> bool" where
  "rows_in_range xs idx = list_all (\<lambda>i. i < length xs) idx"

definition take_rows :: "'a list \<Rightarrow> nat list \<Rightarrow> 'a list" where
  "take_rows xs idx = map ((!) xs) idx"

section \<open>Detection sets (\<^verbatim>\<open>BoxList\<close>)\<close>

text \<open>
  A \<^verbatim>\<open>BoxList\<close> is a structure of parallel tensors: \<^verbatim>\<open>bbox\<close> of shape \<open>[N, 4]\<close> and the
  extra fields \<^verbatim>\<open>labels\<close>, \<^verbatim>\<open>scores\<close>, and, when the detector produces them,
  \<^verbatim>\<open>mask_scores\<close> and \<^verbatim>\<open>mask\<close> (shape \<open>[N, 1, H, W]\<close>, entries uint8).  Scores are finite
  floating-point numbers; only their order is used, so they are embedded in the reals.
  An optional field is \<open>None\<close> when \<^verbatim>\<open>has_field\<close> is false.
\<close>

type_synonym box = "real \<times> real \<times> real \<times> real"

type_synonym mask2d = "nat list list"

record MaskTensor =
  mheight :: nat
  mwidth :: nat
  mdata :: "mask2d list"

record BoxList =
  bbox :: "box list"
  labels :: "int list"
  scores :: "real list"
  mask_scores :: "real list option"
  mask :: "MaskTensor option"

definition boxlist_len :: "BoxList \<Rightarrow> nat" where
  "boxlist_len P = length (bbox P)"

text \<open>Every field holds one row per box (the invariant \<^verbatim>\<open>BoxList.add_field\<close> users keep).\<close>

definition boxlist_ok :: "BoxList \<Rightarrow> bool" where
  "boxlist_ok P \<longleftrightarrow>
     length (labels P) = length (bbox P) \<and>
     length (scores P) = length (bbox P) \<and>
     (case mask_scores P of None \<Rightarrow> True | Some ms \<Rightarrow> length ms = length (bbox P)) \<and>
     (case mask P of None \<Rightarrow> True | Some m \<Rightarrow> length (mdata m) = length (bbox P))"

text \<open>
  \<^verbatim>\<open>BoxList.__getitem__(item)\<close> with an index tensor: \<^verbatim>\<open>bbox[item]\<close> and \<^verbatim>\<open>v[item]\<close> for
  every extra field \<open>v\<close>.
\<close>

definition gather :: "BoxList \<Rightarrow> nat list \<Rightarrow> BoxList" where
  "gather P idx =
     \<lparr> bbox = take_rows (bbox P) idx,
       labels = take_rows (labels P) idx,
       scores = take_rows (scores P) idx,
       mask_scores = map_option (\<lambda>ms. take_rows ms idx) (mask_scores P),
       mask = map_option (\<lambda>m. m\<lparr>mdata := take_rows (mdata m) idx\<rparr>) (mask P) \<rparr>"

definition boxlist_getitem :: "BoxList \<Rightarrow> nat list \<Rightarrow> error + BoxList" where
  "boxlist_getitem P idx =
     (if rows_in_range (bbox P) idx \<and> rows_in_range (labels P) idx \<and>
         rows_in_range (scores P) idx \<and>
         (case mask_scores P of None \<Rightarrow> True | Some ms \<Rightarrow> rows_in_range ms idx) \<and>
         (case mask P of None \<Rightarrow> True | Some m \<Rightarrow> rows_in_range (mdata m) idx)
      then Inr (gather P idx) else Inl IndexError)"

section \<open>Selector: \<^verbatim>\<open>COCODemo.select_top_predictions\<close>\<close>

text \<open>
  Lines 239-242: the scores used by the filter are \<^verbatim>\<open>mask_scores\<close> when the field is
  present and \<^verbatim>\<open>scores\<close> otherwise.
\<close>

definition filter_scores :: "BoxList \<Rightarrow> real list" where
  "filter_scores P = (case mask_scores P of Some ms \<Rightarrow> ms | None \<Rightarrow> scores P)"

text \<open>
  Lines 244-249, the loop \<^verbatim>\<open>for i, v in enumerate(labels)\<close>: the threshold is
  \<^verbatim>\<open>self.confidence_threshold[v-1]\<close>, then \<^verbatim>\<open>scores[i] > thresholds\<close> decides whether \<open>i\<close>
  is appended to \<^verbatim>\<open>keep\<close>.  The first failing lookup aborts the loop.
\<close>

fun keep_loop :: "real list \<Rightarrow> real list \<Rightarrow> nat \<Rightarrow> int list \<Rightarrow> nat list \<Rightarrow> error + nat list" where
  "keep_loop T sc i [] keep = Inr keep"
| "keep_loop T sc i (v # vs) keep =
     (case py_getitem T (v - 1) of
        Inl e \<Rightarrow> Inl e
      | Inr thresholds \<Rightarrow>
          (case py_getitem sc (int i) of
             Inl e \<Rightarrow> Inl e
           | Inr s \<Rightarrow> keep_loop T sc (Suc i) vs (if s > thresholds then keep @ [i] else keep)))"

text \<open>
  Lines 250-255.  \<open>srt\<close> is the index tensor returned by torch's
  \<^verbatim>\<open>scores.sort(0, descending=True)\<close>; the call does not pass \<^verbatim>\<open>stable=True\<close>.  The sort
  key is the field \<^verbatim>\<open>scores\<close> of the filtered list (line 253), whatever the filter used.
\<close>

definition select_top_predictions ::
  "(real list \<Rightarrow> nat list) \<Rightarrow> real list \<Rightarrow> BoxList \<Rightarrow> error + BoxList" where
  "select_top_predictions srt T predictions =
     (case keep_loop T (filter_scores predictions) 0 (labels predictions) [] of
        Inl e \<Rightarrow> Inl e
      | Inr keep \<Rightarrow>
          (case boxlist_getitem predictions keep of
             Inl e \<Rightarrow> Inl e
           | Inr kept \<Rightarrow> boxlist_getitem kept (srt (scores kept))))"

text \<open>
  What torch documents for \<^verbatim>\<open>sort\<close> without \<^verbatim>\<open>stable=True\<close>: the indices are a permutation
  of \<open>0..<n\<close> and the values read through them are in descending order.  The order of equal
  values is left open.
\<close>

definition sort_contract :: "(real list \<Rightarrow> nat list) \<Rightarrow> bool" where
  "sort_contract srt \<longleftrightarrow>
     (\<forall>xs. mset (srt xs) = mset [0..<length xs] \<and>
           sorted_wrt (\<lambda>a b. a \<ge> b) (map ((!) xs) (srt xs)))"

text \<open>The stable sort, which meets the contract and keeps equal values in input order.\<close>

definition argsort_desc_stable :: "real list \<Rightarrow> nat list" where
  "argsort_desc_stable xs = sort_key (\<lambda>i. - (xs ! i)) [0..<length xs]"

text \<open>
  The list \<^verbatim>\<open>keep\<close> as the loop leaves it when no lookup fails: the positions, in input
  order, whose filter score is above the threshold of their label.
\<close>

definition kept_indices :: "real list \<Rightarrow> BoxList \<Rightarrow> nat list" where
  "kept_indices T P =
     filter (\<lambda>i. case py_getitem T (labels P ! i - 1) of
                   Inl e \<Rightarrow> False
                 | Inr t \<Rightarrow> filter_scores P ! i > t)
            [0..<length (labels P)]"

text \<open>The test of lines 247-248 for the detection at position \<open>j\<close> with label \<open>v\<close>.\<close>

definition passes :: "real list \<Rightarrow> real list \<Rightarrow> nat \<Rightarrow> int \<Rightarrow> bool" where
  "passes T sc j v = (case py_getitem T (v - 1) of Inl e \<Rightarrow> False | Inr t \<Rightarrow> sc ! j > t)"

text \<open>
  Lines 250-255 on indices: \<^verbatim>\<open>predictions[keep][idx]\<close> reads row \<open>keep[idx[k]]\<close> of the input
  at output position \<open>k\<close>.
\<close>

definition selected_indices :: "(real list \<Rightarrow> nat list) \<Rightarrow> real list \<Rightarrow> BoxList \<Rightarrow> nat list" where
  "selected_indices srt T P =
     (let keep = kept_indices T P in take_rows keep (srt (take_rows (scores P) keep)))"

text \<open>
  The specification's reading of the threshold table: one entry per non-background class,
  label \<open>L\<close> owning entry \<open>L - 1\<close>; so the labels with an entry are \<open>1..length T\<close>.
\<close>

definition has_threshold_entry :: "real list \<Rightarrow> int \<Rightarrow> bool" where
  "has_threshold_entry T L \<longleftrightarrow> 1 \<le> L \<and> L \<le> int (length T)"

subsection \<open>Example inputs\<close>

text \<open>
  The end-to-end scenario of the specification (three detections, thresholds \<open>[0.5, 0.9]\<close>),
  and a background-labelled detection.
\<close>

definition ex_thresholds :: "real list" where
  "ex_thresholds = [1/2, 9/10]"

definition ex_dets :: BoxList where
  "ex_dets = \<lparr> bbox = [(0, 0, 1, 1), (0, 0, 2, 2), (0, 0, 3, 3)], labels = [1, 1, 2],
               scores = [95/100, 4/10, 99/100], mask_scores = None, mask = None \<rparr>"

definition ex_selected :: BoxList where
  "ex_selected = \<lparr> bbox = [(0, 0, 3, 3), (0, 0, 1, 1)], labels = [2, 1],
               scores = [99/100, 95/100], mask_scores = None, mask = None \<rparr>"

definition ex_background :: BoxList where
  "ex_background = \<lparr> bbox = [(0, 0, 1, 1)], labels = [0], scores = [9/10],
                      mask_scores = None, mask = None \<rparr>"

section \<open>The library sort behind \<^verbatim>\<open>scores.sort(0, descending=True)\<close>\<close>

text \<open>
  The sort of line 254 is library code, not part of the module.  Without \<^verbatim>\<open>stable=True\<close> the
  CPU kernel sorts the pairs (value, position) with the C++ library's \<^verbatim>\<open>std::sort\<close> and the
  comparison ``the first value is greater''.  The definitions below follow the GNU C++
  library's \<^verbatim>\<open>std::sort\<close> (\<^verbatim>\<open>bits/stl_algo.h\<close>, \<^verbatim>\<open>bits/stl_heap.h\<close>): quicksort with a
  median-of-three pivot down to ranges of 16 elements, heap sort once the depth limit is
  used up, and a final insertion sort.  An array is a list, an iterator a position in it.
  Scores are assumed free of NaN.
\<close>

type_synonym kv = "real \<times> nat"

definition comp_desc :: "kv \<Rightarrow> kv \<Rightarrow> bool" where
  "comp_desc x y \<longleftrightarrow> fst x > fst y"

definition iter_swap :: "kv list \<Rightarrow> nat \<Rightarrow> nat \<Rightarrow> kv list" where
  "iter_swap a i j = a[i := a ! j, j := a ! i]"

text \<open>
  \<^verbatim>\<open>__unguarded_linear_insert(last)\<close> with \<^verbatim>\<open>val = *last\<close>: elements before the hole that
  \<open>val\<close> precedes move up by one.  The C++ loop has no bound check; the model stops at
  position 0, which the callers never pass.
\<close>

fun unguarded_linear_insert :: "kv \<Rightarrow> kv list \<Rightarrow> nat \<Rightarrow> kv list" where
  "unguarded_linear_insert val a 0 = a[0 := val]"
| "unguarded_linear_insert val a (Suc next) =
     (if comp_desc val (a ! next)
      then unguarded_linear_insert val (a[Suc next := a ! next]) next
      else a[Suc next := val])"

text \<open>
  \<^verbatim>\<open>__insertion_sort(first, last)\<close> for \<open>first = 0\<close>: an element that precedes the first one
  goes to the front (\<^verbatim>\<open>move_backward\<close>), any other is inserted unguarded.
\<close>

definition insertion_step :: "kv list \<Rightarrow> nat \<Rightarrow> kv list" where
  "insertion_step a i =
     (if comp_desc (a ! i) (a ! 0) then a ! i # take i a @ drop (Suc i) a
      else unguarded_linear_insert (a ! i) a i)"

definition insertion_sort :: "kv list \<Rightarrow> nat \<Rightarrow> kv list" where
  "insertion_sort a last' = fold (\<lambda>i a. insertion_step a i) [1..<last'] a"

definition unguarded_insertion_sort :: "kv list \<Rightarrow> nat \<Rightarrow> nat \<Rightarrow> kv list" where
  "unguarded_insertion_sort a first last' =
     fold (\<lambda>i a. unguarded_linear_insert (a ! i) a i) [first..<last'] a"

definition final_insertion_sort :: "kv list \<Rightarrow> kv list" where
  "final_insertion_sort a =
     (if length a > 16
      then unguarded_insertion_sort (insertion_sort a 16) 16 (length a)
      else insertion_sort a (length a))"

text \<open>\<^verbatim>\<open>__move_median_to_first(result, a, b, c)\<close>.\<close>

definition move_median_to_first :: "kv list \<Rightarrow> nat \<Rightarrow> nat \<Rightarrow> nat \<Rightarrow> nat \<Rightarrow> kv list" where
  "move_median_to_first a result ia ib ic =
     (if comp_desc (a ! ia) (a ! ib)
      then (if comp_desc (a ! ib) (a ! ic) then iter_swap a result ib
            else if comp_desc (a ! ia) (a ! ic) then iter_swap a result ic
            else iter_swap a result ia)
      else if comp_desc (a ! ia) (a ! ic) then iter_swap a result ia
      else if comp_desc (a ! ib) (a ! ic) then iter_swap a result ic
      else iter_swap a result ib)"

text \<open>
  The two scans of \<^verbatim>\<open>__unguarded_partition\<close>: \<^verbatim>\<open>while (comp(first, pivot)) ++first\<close> and
  \<^verbatim>\<open>while (comp(pivot, last)) --last\<close>, bounded by the ends of the array.
\<close>

definition scan_up :: "kv list \<Rightarrow> nat \<Rightarrow> nat \<Rightarrow> nat" where
  "scan_up a pivot first =
     first + length (takeWhile (\<lambda>x. comp_desc x (a ! pivot)) (drop first a))"

definition scan_down :: "kv list \<Rightarrow> nat \<Rightarrow> nat \<Rightarrow> nat" where
  "scan_down a pivot last' =
     last' - length (takeWhile (\<lambda>x. comp_desc (a ! pivot) x) (rev (take (Suc last') a)))"

function unguarded_partition :: "kv list \<Rightarrow> nat \<Rightarrow> nat \<Rightarrow> nat \<Rightarrow> kv list \<times> nat" where
  "unguarded_partition a first last' pivot =
     (let first1 = scan_up a pivot first;
          last1 = scan_down a pivot (last' - 1)
      in if \<not> first1 < last1 then (a, first1)
         else unguarded_partition (iter_swap a first1 last1) (first1 + 1) last1 pivot)"
  by pat_completeness auto
termination
  by (relation "measure (\<lambda>(a, first, last', pivot). last' - first)")
     (auto simp: scan_up_def scan_down_def)

definition unguarded_partition_pivot :: "kv list \<Rightarrow> nat \<Rightarrow> nat \<Rightarrow> kv list \<times> nat" where
  "unguarded_partition_pivot a first last' =
     (let mid = first + (last' - first) div 2;
          a1 = move_median_to_first a first (first + 1) mid (last' - 1)
      in unguarded_partition a1 (first + 1) last' first)"

text \<open>
  Heap sort, used by \<^verbatim>\<open>__partial_sort(first, last, last)\<close>: \<^verbatim>\<open>__push_heap\<close>,
  \<^verbatim>\<open>__adjust_heap\<close>, \<^verbatim>\<open>__make_heap\<close>, \<^verbatim>\<open>__pop_heap\<close> and \<^verbatim>\<open>__sort_heap\<close> on the range taken
  out of the array (positions count from the start of the range).
\<close>

function push_heap :: "kv list \<Rightarrow> nat \<Rightarrow> nat \<Rightarrow> kv \<Rightarrow> kv list" where
  "push_heap a holeIndex topIndex val =
     (let parent = (holeIndex - 1) div 2
      in if holeIndex > topIndex \<and> comp_desc (a ! parent) val
         then push_heap (a[holeIndex := a ! parent]) parent topIndex val
         else a[holeIndex := val])"
  by pat_completeness auto
termination
  by (relation "measure (\<lambda>(a, holeIndex, topIndex, val). holeIndex)") auto

function sift_down :: "kv list \<Rightarrow> nat \<Rightarrow> nat \<Rightarrow> nat \<Rightarrow> kv list \<times> nat \<times> nat" where
  "sift_down a holeIndex secondChild len =
     (if secondChild < (len - 1) div 2
      then (let c = 2 * (secondChild + 1);
                c' = (if comp_desc (a ! c) (a ! (c - 1)) then c - 1 else c)
            in sift_down (a[holeIndex := a ! c']) c' c' len)
      else (a, holeIndex, secondChild))"
  by pat_completeness auto
termination
  by (relation "measure (\<lambda>(a, holeIndex, secondChild, len). len - secondChild)") auto

definition adjust_heap :: "kv list \<Rightarrow> nat \<Rightarrow> nat \<Rightarrow> kv \<Rightarrow> kv list" where
  "adjust_heap a holeIndex len val =
     (case sift_down a holeIndex holeIndex len of
        (a1, hole1, secondChild) \<Rightarrow>
          if len mod 2 = 0 \<and> 2 \<le> len \<and> secondChild = (len - 2) div 2
          then (let c = 2 * (secondChild + 1)
                in push_heap (a1[hole1 := a1 ! (c - 1)]) (c - 1) holeIndex val)
          else push_heap a1 hole1 holeIndex val)"

fun make_heap_loop :: "kv list \<Rightarrow> nat \<Rightarrow> nat \<Rightarrow> kv list" where
  "make_heap_loop a len 0 = adjust_heap a 0 len (a ! 0)"
| "make_heap_loop a len (Suc parent) =
     make_heap_loop (adjust_heap a (Suc parent) len (a ! Suc parent)) len parent"

definition make_heap :: "kv list \<Rightarrow> kv list" where
  "make_heap a = (if length a < 2 then a else make_heap_loop a (length a) ((length a - 2) div 2))"

text \<open>\<^verbatim>\<open>__pop_heap(first, last, result)\<close> with \<open>first = 0\<close> and \<open>result = last\<close>.\<close>

definition pop_heap :: "kv list \<Rightarrow> nat \<Rightarrow> kv list" where
  "pop_heap a last' = adjust_heap (a[last' := a ! 0]) 0 last' (a ! last')"

fun sort_heap :: "kv list \<Rightarrow> nat \<Rightarrow> kv list" where
  "sort_heap a 0 = a"
| "sort_heap a (Suc last') = (if Suc last' > 1 then sort_heap (pop_heap a last') last' else a)"

definition partial_sort :: "kv list \<Rightarrow> nat \<Rightarrow> nat \<Rightarrow> kv list" where
  "partial_sort a first last' =
     (let seg = take (last' - first) (drop first a)
      in take first a @ sort_heap (make_heap seg) (length seg) @ drop last' a)"

text \<open>\<^verbatim>\<open>__introsort_loop(first, last, depth_limit)\<close>, with \<^verbatim>\<open>_S_threshold = 16\<close>.\<close>

fun introsort_loop :: "kv list \<Rightarrow> nat \<Rightarrow> nat \<Rightarrow> nat \<Rightarrow> kv list" where
  "introsort_loop a first last' 0 =
     (if last' - first > 16 then partial_sort a first last' else a)"
| "introsort_loop a first last' (Suc depth_limit) =
     (if last' - first > 16
      then (case unguarded_partition_pivot a first last' of
              (a1, cut') \<Rightarrow>
                introsort_loop (introsort_loop a1 cut' last' depth_limit) first cut' depth_limit)
      else a)"

text \<open>\<^verbatim>\<open>std::__lg\<close>, the position of the highest set bit.\<close>

fun lg :: "nat \<Rightarrow> nat" where
  "lg n = (if n < 2 then 0 else Suc (lg (n div 2)))"

declare lg.simps [simp del]

definition std_sort :: "kv list \<Rightarrow> kv list" where
  "std_sort a =
     (if a = [] then a
      else final_insertion_sort (introsort_loop a 0 (length a) (lg (length a) * 2)))"

text \<open>
  The index tensor of the sort: the positions \<open>0..<n\<close> are sorted along with the values.
\<close>

definition argsort_desc_std :: "real list \<Rightarrow> nat list" where
  "argsort_desc_std xs = map snd (std_sort (zip xs [0..<length xs]))"

text \<open>
  Seventeen detections of one class with the same score, told apart by their boxes; what
  selecting them returns under \<open>argsort_desc_std\<close>; and what selecting that result again
  returns.
\<close>

definition ex_ties17 :: BoxList where
  "ex_ties17 =
     \<lparr> bbox = [(0, 0, 1, 1), (0, 0, 2, 2), (0, 0, 3, 3), (0, 0, 4, 4), (0, 0, 5, 5), (0, 0, 6, 6),
               (0, 0, 7, 7), (0, 0, 8, 8), (0, 0, 9, 9), (0, 0, 10, 10), (0, 0, 11, 11),
               (0, 0, 12, 12), (0, 0, 13, 13), (0, 0, 14, 14), (0, 0, 15, 15), (0, 0, 16, 16),
               (0, 0, 17, 17)],
       labels = replicate 17 1, scores = replicate 17 (9/10),
       mask_scores = None, mask = None \<rparr>"

definition ex_ties17_once :: BoxList where
  "ex_ties17_once =
     \<lparr> bbox = [(0, 0, 9, 9), (0, 0, 17, 17), (0, 0, 16, 16), (0, 0, 15, 15), (0, 0, 14, 14),
               (0, 0, 13, 13), (0, 0, 12, 12), (0, 0, 11, 11), (0, 0, 10, 10), (0, 0, 1, 1),
               (0, 0, 8, 8), (0, 0, 7, 7), (0, 0, 6, 6), (0, 0, 5, 5), (0, 0, 4, 4), (0, 0, 3, 3),
               (0, 0, 2, 2)],
       labels = replicate 17 1, scores = replicate 17 (9/10),
       mask_scores = None, mask = None \<rparr>"

definition ex_ties17_twice :: BoxList where
  "ex_ties17_twice =
     \<lparr> bbox = [(0, 0, 10, 10), (0, 0, 2, 2), (0, 0, 3, 3), (0, 0, 4, 4), (0, 0, 5, 5),
               (0, 0, 6, 6), (0, 0, 7, 7), (0, 0, 8, 8), (0, 0, 1, 1), (0, 0, 9, 9),
               (0, 0, 11, 11), (0, 0, 12, 12), (0, 0, 13, 13), (0, 0, 14, 14), (0, 0, 15, 15),
               (0, 0, 16, 16), (0, 0, 17, 17)],
       labels = replicate 17 1, scores = replicate 17 (9/10),
       mask_scores = None, mask = None \<rparr>"

section \<open>External collaborators\<close>

text \<open>
  The functions the module calls in torch, OpenCV, numpy and \<^verbatim>\<open>maskrcnn_benchmark\<close> are
  parameters of the model.  \<open>'img\<close> is the type of an image buffer's contents, \<open>'c\<close> of a
  colour of \<^verbatim>\<open>colormap(rgb=True).tolist()\<close>, \<open>'k\<close> of a contour list, \<open>'z\<close> of the second
  component the detector returns (\<^verbatim>\<open>zeros_id\<close>).
  \<^item> \<open>tensor_sort\<close>: the indices of \<^verbatim>\<open>scores.sort(0, descending=True)\<close>;
  \<^item> \<open>detector\<close>: \<^verbatim>\<open>compute_prediction\<close>, that is transforms, model and masker;
  \<^item> \<open>rectangle\<close>, \<open>putText\<close>, \<open>getTextSize\<close>, \<open>drawContours\<close>, \<open>findContours\<close>,
    \<open>addWeighted\<close>, \<open>applyColorMap\<close>: the OpenCV calls, as functions of the buffer contents;
  \<^item> \<open>format_score\<close>: \<^verbatim>\<open>"{:.2f}".format(score)\<close>;
  \<^item> \<open>interpolate\<close>: \<^verbatim>\<open>L.interpolate(masks.float(), scale_factor=1/masks_per_dim).byte()\<close>;
  \<^item> \<open>keypoints_overlay\<close>: \<^verbatim>\<open>overlay_keypoints\<close>, whose helper \<^verbatim>\<open>vis_keypoints\<close> is cut off
    in the file.
\<close>

record ('img, 'c, 'k, 'z) externals =
  tensor_sort :: "real list \<Rightarrow> nat list"
  detector :: "'img list \<Rightarrow> BoxList list \<times> 'z"
  colormap :: "'c list"
  rectangle :: "'img \<Rightarrow> real \<times> real \<Rightarrow> real \<times> real \<Rightarrow> 'c \<Rightarrow> int \<Rightarrow> 'img"
  findContours :: "mask2d \<Rightarrow> 'k"
  drawContours :: "'img \<Rightarrow> 'k \<Rightarrow> 'c \<Rightarrow> 'img"
  addWeighted :: "'img \<Rightarrow> real \<Rightarrow> 'img \<Rightarrow> real \<Rightarrow> 'img"
  keypoints_overlay :: "'img \<Rightarrow> BoxList \<Rightarrow> 'img"
  getTextSize :: "string \<Rightarrow> real \<times> real"
  putText :: "'img \<Rightarrow> string \<Rightarrow> real \<times> real \<Rightarrow> 'img"
  format_score :: "real \<Rightarrow> string"
  interpolate :: "nat \<Rightarrow> MaskTensor \<Rightarrow> MaskTensor"
  applyColorMap :: "mask2d \<Rightarrow> 'img"

text \<open>The attributes of \<^verbatim>\<open>COCODemo\<close> set by \<^verbatim>\<open>__init__\<close> and the two \<^verbatim>\<open>cfg.MODEL\<close> flags read.\<close>

record demo_config =
  confidence_threshold :: "real list"
  show_mask_heatmaps :: bool
  masks_per_dim :: nat
  display_text :: bool
  display_score :: bool
  MASK_ON :: bool
  KEYPOINT_ON :: bool

section \<open>Box overlay: \<^verbatim>\<open>COCODemo.overlay_boxes\<close>\<close>

text \<open>
  Image buffers are numpy arrays, shared by reference.  A store maps the address of a
  buffer to its contents.  \<^verbatim>\<open>cv2.rectangle(img, ...)\<close> draws on the array it is given and
  returns that same array.
\<close>

type_synonym 'img store = "nat \<Rightarrow> 'img"

definition cv2_rectangle ::
  "('img, 'c, 'k, 'z) externals \<Rightarrow> 'img store \<Rightarrow> nat \<Rightarrow> real \<times> real \<Rightarrow> real \<times> real \<Rightarrow> 'c \<Rightarrow> int
     \<Rightarrow> 'img store \<times> nat" where
  "cv2_rectangle api s img pt1 pt2 color thickness =
     (s(img := rectangle api (s img) pt1 pt2 color thickness), img)"

text \<open>\<^verbatim>\<open>box.to(torch.int64)\<close> rounds each coordinate towards zero.\<close>

definition to_int64 :: "real \<Rightarrow> int" where
  "to_int64 x = (if 0 \<le> x then \<lfloor>x\<rfloor> else \<lceil>x\<rceil>)"

text \<open>
  Lines 295-300, \<^verbatim>\<open>for box, color in zip(boxes, colors)\<close>: the loop ends with the shorter of
  the two sequences.  \<^verbatim>\<open>image\<close> (here \<open>img\<close>, the address of the buffer) is rebound to
  what \<^verbatim>\<open>cv2.rectangle\<close> returns.
\<close>

fun boxes_loop ::
  "('img, 'c, 'k, 'z) externals \<Rightarrow> 'img store \<Rightarrow> nat \<Rightarrow> box list \<Rightarrow> 'c list \<Rightarrow> 'img store \<times> nat" where
  "boxes_loop api s img ((x1, y1, x2, y2) # boxes) (color # colors) =
     (let top_left = (of_int (to_int64 x1), of_int (to_int64 y1));
          bottom_right = (of_int (to_int64 x2), of_int (to_int64 y2));
          (s', img') = cv2_rectangle api s img top_left bottom_right color 1
      in boxes_loop api s' img' boxes colors)"
| "boxes_loop api s img boxes colors = (s, img)"

definition overlay_boxes ::
  "('img, 'c, 'k, 'z) externals \<Rightarrow> 'img store \<Rightarrow> nat \<Rightarrow> BoxList \<Rightarrow> 'img store \<times> nat" where
  "overlay_boxes api s img predictions =
     boxes_loop api s img (bbox predictions) (colormap api)"

text \<open>The rectangle drawn for one box, as a function of the buffer contents.\<close>

definition draw_box :: "('img, 'c, 'k, 'z) externals \<Rightarrow> box \<Rightarrow> 'c \<Rightarrow> 'img \<Rightarrow> 'img" where
  "draw_box api b color img =
     (case b of (x1, y1, x2, y2) \<Rightarrow>
        rectangle api img (of_int (to_int64 x1), of_int (to_int64 y1))
                          (of_int (to_int64 x2), of_int (to_int64 y2)) color 1)"

section \<open>Mask overlay: \<^verbatim>\<open>COCODemo.overlay_mask\<close>\<close>

text \<open>\<^verbatim>\<open>len(np.where(mask == 1)[0])\<close>: the number of entries of the mask equal to 1.\<close>

definition count_ones :: "mask2d \<Rightarrow> nat" where
  "count_ones m = length (filter (\<lambda>v. v = 1) (concat m))"

text \<open>
  Lines 328-339, \<^verbatim>\<open>for mask, color in zip(masks, colors)\<close>; \<^verbatim>\<open>mask_img\<close> is the scratch copy
  and \<^verbatim>\<open>areas\<close> the list appended to.
\<close>

fun mask_loop ::
  "('img, 'c, 'k, 'z) externals \<Rightarrow> 'img \<Rightarrow> nat list \<Rightarrow> mask2d list \<Rightarrow> 'c list \<Rightarrow> 'img \<times> nat list" where
  "mask_loop api mask_img areas (m # masks) (color # colors) =
     (let contours = findContours api m;
          mask_img' = drawContours api mask_img contours color;
          area = count_ones m
      in mask_loop api mask_img' (areas @ [area]) masks colors)"
| "mask_loop api mask_img areas masks colors = (mask_img, areas)"

text \<open>
  \<^verbatim>\<open>predictions.get_field("mask")\<close> raises \<^verbatim>\<open>KeyError\<close> without the field.  The scratch image
  starts as \<^verbatim>\<open>np.copy(image)\<close>; the result is \<^verbatim>\<open>addWeighted(image, 1 - 0.45, mask_img, 0.45, 0)\<close>.
\<close>

definition overlay_mask ::
  "('img, 'c, 'k, 'z) externals \<Rightarrow> 'img \<Rightarrow> BoxList \<Rightarrow> error + ('img \<times> nat list)" where
  "overlay_mask api img predictions =
     (case mask predictions of
        None \<Rightarrow> Inl KeyError
      | Some masks \<Rightarrow>
          (let (mask_img, areas) = mask_loop api img [] (mdata masks) (colormap api);
               alpha = 45 / 100
           in Inr (addWeighted api img (1 - alpha) mask_img alpha, areas)))"

section \<open>Label overlay: \<^verbatim>\<open>COCODemo.overlay_class_names\<close>\<close>

definition CATEGORIES :: "string list" where
  "CATEGORIES = [''__background'', ''soft'', ''black'', ''scratch'', ''metal'', ''edge'', ''oil'']"

text \<open>Line 410, \<^verbatim>\<open>[self.CATEGORIES[i] for i in labels]\<close>.\<close>

fun category_names :: "int list \<Rightarrow> error + string list" where
  "category_names [] = Inr []"
| "category_names (i # is) =
     (case py_getitem CATEGORIES i of
        Inl e \<Rightarrow> Inl e
      | Inr name \<Rightarrow> (case category_names is of Inl e \<Rightarrow> Inl e | Inr names \<Rightarrow> Inr (name # names)))"

text \<open>
  Lines 419-432, \<^verbatim>\<open>for box, score, label, color in zip(boxes, scores, labels, colors)\<close>.  The
  text is the class name, followed by \<^verbatim>\<open>": "\<close> and the formatted score when
  \<^verbatim>\<open>display_score\<close> holds.  The background rectangle is filled (thickness \<open>-1\<close>).
\<close>

fun class_names_loop ::
  "('img, 'c, 'k, 'z) externals \<Rightarrow> 'img \<Rightarrow> bool \<Rightarrow> box list \<Rightarrow> real list \<Rightarrow> string list \<Rightarrow> 'c list
     \<Rightarrow> 'img" where
  "class_names_loop api img display_score' ((x, y, x2, y2) # boxes) (score # scores')
       (label # labels') (color # colors) =
     (let s = (if display_score' then label @ '': '' @ format_score api score else label);
          (text_w, text_h) = getTextSize api s;
          text_pt = (x, y - 3);
          img1 = rectangle api img (x, y) (x + text_w, y - text_h - 4) color (- 1);
          img2 = putText api img1 s text_pt
      in class_names_loop api img2 display_score' boxes scores' labels' colors)"
| "class_names_loop api img display_score' boxes scores' labels' colors = img"

definition overlay_class_names ::
  "('img, 'c, 'k, 'z) externals \<Rightarrow> 'img \<Rightarrow> BoxList \<Rightarrow> bool \<Rightarrow> error + 'img" where
  "overlay_class_names api img predictions display_score' =
     (case category_names (labels predictions) of
        Inl e \<Rightarrow> Inl e
      | Inr names \<Rightarrow>
          Inr (class_names_loop api img display_score' (bbox predictions) (scores predictions)
                 names (colormap api)))"

section \<open>Montage builder: \<^verbatim>\<open>COCODemo.create_mask_montage\<close>\<close>

definition zeros :: "nat \<Rightarrow> nat \<Rightarrow> mask2d" where
  "zeros h w = replicate h (replicate w 0)"

text \<open>
  The slice assignment \<^verbatim>\<open>result[start_y:end_y, start_x:end_x] = tile\<close>, for a tile of the
  shape of the slice (which the regular shape of the mask tensor gives).
\<close>

definition set_block :: "mask2d \<Rightarrow> nat \<Rightarrow> nat \<Rightarrow> nat \<Rightarrow> nat \<Rightarrow> mask2d \<Rightarrow> mask2d" where
  "set_block result start_y end_y start_x end_x tile =
     map (\<lambda>r. if start_y \<le> r \<and> r < end_y
              then take start_x (result ! r) @ tile ! (r - start_y) @ drop end_x (result ! r)
              else result ! r)
         [0..<length result]"

text \<open>
  Lines 371-389 on the downsampled masks: keep the first \<^verbatim>\<open>max_masks\<close>, pad with zero tiles
  (\<^verbatim>\<open>masks_padded[:len(masks)] = masks\<close>), view them as a \<^verbatim>\<open>masks_per_dim\<close> by
  \<^verbatim>\<open>masks_per_dim\<close> grid (\<^verbatim>\<open>masks[y, x]\<close> is entry \<open>y * masks_per_dim + x\<close>), and copy tile
  \<open>(y, x)\<close> into its block of \<^verbatim>\<open>result\<close> (\<open>paste_tile\<close> is the body of the inner loop).
\<close>

definition paste_tile :: "mask2d list \<Rightarrow> nat \<Rightarrow> nat \<Rightarrow> nat \<Rightarrow> nat \<Rightarrow> nat \<Rightarrow> mask2d \<Rightarrow> mask2d" where
  "paste_tile ms mpd height width y x result =
     (let start_y = y * height; end_y = (y + 1) * height;
          start_x = x * width; end_x = (x + 1) * width
      in set_block result start_y end_y start_x end_x (ms ! (y * mpd + x)))"

definition montage_tiles :: "nat \<Rightarrow> MaskTensor \<Rightarrow> mask2d" where
  "montage_tiles mpd masks =
     (let height = mheight masks; width = mwidth masks;
          max_masks = mpd ^ 2;
          ms = take max_masks (mdata masks);
          ms = (if length ms < max_masks
                then ms @ drop (length ms) (replicate max_masks (zeros height width))
                else ms);
          result = zeros (mpd * height) (mpd * width)
      in fold (\<lambda>y. fold (\<lambda>x. paste_tile ms mpd height width y x) [0..<mpd]) [0..<mpd] result)"

text \<open>
  Lines 366-370 and 390.  \<^verbatim>\<open>get_field("mask")\<close> raises \<^verbatim>\<open>KeyError\<close> without the field and
  \<^verbatim>\<open>1 / masks_per_dim\<close> raises \<^verbatim>\<open>ZeroDivisionError\<close> for 0.  The argument \<^verbatim>\<open>image\<close> is unused.
\<close>

definition create_mask_montage ::
  "('img, 'c, 'k, 'z) externals \<Rightarrow> demo_config \<Rightarrow> 'img \<Rightarrow> BoxList \<Rightarrow> error + 'img" where
  "create_mask_montage api self img predictions =
     (case mask predictions of
        None \<Rightarrow> Inl KeyError
      | Some masks \<Rightarrow>
          if masks_per_dim self = 0 then Inl ZeroDivisionError
          else Inr (applyColorMap api
                      (montage_tiles (masks_per_dim self)
                         (interpolate api (masks_per_dim self) masks))))"

text \<open>
  A two-dimensional array of \<open>H\<close> rows of \<open>W\<close> entries, and a mask tensor of regular shape:
  every mask has \<open>mheight\<close> rows of \<open>mwidth\<close> entries.
\<close>

definition shape2 :: "mask2d \<Rightarrow> nat \<Rightarrow> nat \<Rightarrow> bool" where
  "shape2 g H W \<longleftrightarrow> length g = H \<and> (\<forall>r<H. length (g ! r) = W)"

definition tensor_ok :: "MaskTensor \<Rightarrow> bool" where
  "tensor_ok m \<longleftrightarrow>
     list_all (\<lambda>t. length t = mheight m \<and> list_all (\<lambda>row. length row = mwidth m) t) (mdata m)"

section \<open>Pipeline: \<^verbatim>\<open>COCODemo.run_on_opencv_image\<close>\<close>

text \<open>
  The dictionaries built by the function have the keys \<^verbatim>\<open>masks\<close>, \<^verbatim>\<open>class_ids\<close>, \<^verbatim>\<open>rois\<close>,
  \<^verbatim>\<open>scores\<close> and, on some paths, \<^verbatim>\<open>area\<close>; \<open>rd_area\<close> is \<open>None\<close> when the key is absent.
\<close>

record result_data =
  rd_masks :: "mask2d list"
  rd_class_ids :: "int list"
  rd_rois :: "box list"
  rd_scores :: "real list"
  rd_area :: "nat list option"

text \<open>
  The four \<^verbatim>\<open>return\<close> statements give tuples of different shapes:
  line 159 \<^verbatim>\<open>results, results_data, zeros_id\<close>; line 163 a dictionary and \<^verbatim>\<open>image\<close>;
  line 170 the montage; line 182 \<^verbatim>\<open>results_data, results, zeros_id\<close>.
\<close>

datatype ('img, 'z) run_result =
    Ret_results_data_zeros "'img list" "result_data list" 'z
  | Ret_dict_image result_data "'img list"
  | Ret_montage 'img
  | Ret_data_results_zeros "result_data list" "'img list" 'z

text \<open>
  Lines 160-181, one round of \<^verbatim>\<open>for predictions in predictions_\<close>.  \<^verbatim>\<open>image[i-1].copy()\<close> is a
  fresh buffer: the box overlay runs in a store that holds only this copy.
\<close>

fun run_loop ::
  "('img, 'c, 'k, 'z) externals \<Rightarrow> demo_config \<Rightarrow> 'img list \<Rightarrow> 'z \<Rightarrow> nat \<Rightarrow> BoxList list \<Rightarrow>
     'img list \<Rightarrow> result_data list \<Rightarrow> error + ('img, 'z) run_result" where
  "run_loop api self imgs zeros_id i [] results results_data =
     Inr (Ret_data_results_zeros results_data results zeros_id)"
| "run_loop api self imgs zeros_id i (predictions # rest) results results_data =
     (if boxlist_len predictions = 0
      then Inr (Ret_dict_image \<lparr> rd_masks = [], rd_class_ids = [], rd_rois = [], rd_scores = [],
                                 rd_area = Some [] \<rparr> imgs)
      else
        case select_top_predictions (tensor_sort api) (confidence_threshold self) predictions of
          Inl e \<Rightarrow> Inl e
        | Inr top_predictions \<Rightarrow>
        (case py_getitem imgs (int (i + 1) - 1) of
          Inl e \<Rightarrow> Inl e
        | Inr result0 \<Rightarrow>
        if show_mask_heatmaps self
        then (case create_mask_montage api self result0 top_predictions of
                Inl e \<Rightarrow> Inl e
              | Inr montage \<Rightarrow> Inr (Ret_montage montage))
        else
        (let (s, r) = overlay_boxes api (\<lambda>a. result0) 0 top_predictions;
             result1 = s r
         in case (if MASK_ON self then overlay_mask api result1 top_predictions
                  else Inr (result1, [])) of
          Inl e \<Rightarrow> Inl e
        | Inr (result2, areas) \<Rightarrow>
        (let result3 = (if KEYPOINT_ON self then keypoints_overlay api result2 top_predictions
                        else result2)
         in case (if display_text self
                  then overlay_class_names api result3 top_predictions (display_score self)
                  else Inr result3) of
          Inl e \<Rightarrow> Inl e
        | Inr result4 \<Rightarrow>
        (case overlay_class_names api result4 top_predictions True of
          Inl e \<Rightarrow> Inl e
        | Inr result5 \<Rightarrow>
        (case mask top_predictions of
          None \<Rightarrow> Inl KeyError
        | Some m \<Rightarrow>
            run_loop api self imgs zeros_id (i + 1) rest (results @ [result5])
              (results_data @
                 [\<lparr> rd_masks = mdata m, rd_class_ids = labels top_predictions,
                    rd_rois = bbox top_predictions, rd_scores = scores top_predictions,
                    rd_area = Some areas \<rparr>])))))))"

text \<open>Lines 148-159 and the loop.  \<^verbatim>\<open>image\<close> is the batch of input images.\<close>

definition run_on_opencv_image ::
  "('img, 'c, 'k, 'z) externals \<Rightarrow> demo_config \<Rightarrow> 'img list \<Rightarrow> error + ('img, 'z) run_result" where
  "run_on_opencv_image api self imgs =
     (case detector api imgs of
        (predictions_, zeros_id) \<Rightarrow>
          if predictions_ = []
          then Inr (Ret_results_data_zeros []
                      [\<lparr> rd_masks = [], rd_class_ids = [], rd_rois = [], rd_scores = [],
                         rd_area = None \<rparr>] zeros_id)
          else run_loop api self imgs zeros_id 0 predictions_ [] [])"

section \<open>A small instance of the external collaborators\<close>

text \<open>
  Used to run the model on concrete inputs.  A buffer is a grid of grey values together with
  the list of the texts written on it; a colour is a grey value; the colour table has two
  entries.  \<open>raster_rectangle\<close> paints the outline of the rectangle spanned by two corners, or
  the whole rectangle for a negative thickness.  \<open>ex_interpolate\<close> keeps every
  \<open>mpd\<close>-th row and column.  \<open>two_decimals\<close> writes a score in \<open>[0, 10)\<close> with two decimals.
\<close>

type_synonym ex_img = "nat list list \<times> string list"

definition raster_rectangle ::
  "nat list list \<Rightarrow> real \<times> real \<Rightarrow> real \<times> real \<Rightarrow> nat \<Rightarrow> int \<Rightarrow> nat list list" where
  "raster_rectangle g pt1 pt2 color thickness =
     (let xa = min (fst pt1) (fst pt2); xb = max (fst pt1) (fst pt2);
          ya = min (snd pt1) (snd pt2); yb = max (snd pt1) (snd pt2)
      in map (\<lambda>r. map (\<lambda>c.
                let x = real c; y = real r;
                    inside = (xa \<le> x \<and> x \<le> xb \<and> ya \<le> y \<and> y \<le> yb);
                    border = (inside \<and> (x = xa \<or> x = xb \<or> y = ya \<or> y = yb))
                in if (if thickness < 0 then inside else border) then color else g ! r ! c)
              [0..<length (g ! r)])
             [0..<length g])"

definition ex_interpolate :: "nat \<Rightarrow> MaskTensor \<Rightarrow> MaskTensor" where
  "ex_interpolate mpd m =
     \<lparr> mheight = mheight m div mpd, mwidth = mwidth m div mpd,
       mdata = map (\<lambda>t. map (\<lambda>r. map (\<lambda>c. t ! (r * mpd) ! (c * mpd)) [0..<mwidth m div mpd])
                             [0..<mheight m div mpd])
                   (mdata m) \<rparr>"

definition digit_char :: "nat \<Rightarrow> char" where
  "digit_char d = char_of (48 + d)"

definition two_decimals :: "real \<Rightarrow> string" where
  "two_decimals x =
     (let n = nat \<lfloor>x * 100 + 1 / 2\<rfloor>
      in [digit_char (n div 100), CHR ''.'', digit_char (n div 10 mod 10), digit_char (n mod 10)])"

definition ex_api :: "(ex_img, nat, unit, unit) externals" where
  "ex_api =
     \<lparr> tensor_sort = argsort_desc_stable,
       detector = (\<lambda>imgs. ([], ())),
       colormap = [1, 2],
       rectangle = (\<lambda>(g, texts) pt1 pt2 color thickness.
                      (raster_rectangle g pt1 pt2 color thickness, texts)),
       findContours = (\<lambda>m. ()),
       drawContours = (\<lambda>img contours color. img),
       addWeighted = (\<lambda>src1 alpha src2 beta. src2),
       keypoints_overlay = (\<lambda>img predictions. img),
       getTextSize = (\<lambda>s. (real (length s), 1)),
       putText = (\<lambda>(g, texts) s pt. (g, texts @ [s])),
       format_score = two_decimals,
       interpolate = ex_interpolate,
       applyColorMap = (\<lambda>m. (m, [])) \<rparr>"

definition ex_config :: demo_config where
  "ex_config =
     \<lparr> confidence_threshold = ex_thresholds, show_mask_heatmaps = False, masks_per_dim = 2,
       display_text = False, display_score = False, MASK_ON = True, KEYPOINT_ON = False \<rparr>"

definition ex_canvas :: ex_img where
  "ex_canvas = ([[0, 0, 0], [0, 0, 0], [0, 0, 0]], [])"

definition ex_one_box :: BoxList where
  "ex_one_box = \<lparr> bbox = [(0, 0, 2, 2)], labels = [1], scores = [9/10],
                   mask_scores = None, mask = None \<rparr>"

text \<open>Three detections with \<open>2 \<times> 2\<close> masks of areas 1, 4 and 2; and the same set with no rows.\<close>

definition ex_masks :: MaskTensor where
  "ex_masks = \<lparr> mheight = 2, mwidth = 2,
                 mdata = [[[1, 0], [0, 0]], [[1, 1], [1, 1]], [[0, 1], [1, 0]]] \<rparr>"

definition ex_dets_masks :: BoxList where
  "ex_dets_masks = ex_dets\<lparr> mask := Some ex_masks \<rparr>"

definition ex_no_dets :: BoxList where
  "ex_no_dets = \<lparr> bbox = [], labels = [], scores = [], mask_scores = None,
                   mask = Some \<lparr> mheight = 2, mwidth = 2, mdata = [] \<rparr> \<rparr>"

section \<open>Notions used to state the rendering claims\<close>

text \<open>
  \<open>labels_drawn api self sel out\<close>: the image \<open>out\<close> is what lines 176-178 make of some
  image \<open>base\<close> for the selected detections \<open>sel\<close>: the label overlay with scores forced on,
  preceded, when \<^verbatim>\<open>display_text\<close> is set, by the label overlay with the configured flag.
\<close>

definition labels_drawn ::
  "('img, 'c, 'k, 'z) externals \<Rightarrow> demo_config \<Rightarrow> BoxList \<Rightarrow> 'img \<Rightarrow> bool" where
  "labels_drawn api self sel out \<longleftrightarrow>
     (\<exists>base.
        if display_text self
        then (\<exists>mid. overlay_class_names api base sel (display_score self) = Inr mid \<and>
                    overlay_class_names api mid sel True = Inr out)
        else overlay_class_names api base sel True = Inr out)"

text \<open>Further example inputs: a detector that returns \<open>ex_dets_masks\<close>, and wide masks.\<close>

definition ex_run_api :: "(ex_img, nat, unit, unit) externals" where
  "ex_run_api = ex_api\<lparr>detector := \<lambda>imgs. ([ex_dets_masks], ())\<rparr>"

definition ex_wide :: BoxList where
  "ex_wide = ex_dets\<lparr> mask := Some \<lparr> mheight = 2, mwidth = 4,
       mdata = [[[1, 0, 2, 0], [0, 0, 0, 0]], [[3, 0, 4, 0], [0, 0, 0, 0]],
                [[5, 0, 6, 0], [0, 0, 0, 0]]] \<rparr> \<rparr>"

text \<open>
  What the pipeline returns for \<open>ex_run_api\<close> and \<open>ex_config\<close> (both display flags off): the
  per-image data and the rendered image, whose texts carry the scores.
\<close>

definition ex_rendered :: "ex_img list" where
  "ex_rendered = [([[2, 2, 2], [2, 2, 0], [1, 0, 0]], [''black: 0.99'', ''soft: 0.95''])]"

definition ex_rendered_data :: "result_data list" where
  "ex_rendered_data =
     [\<lparr> rd_masks = [[[0, 1], [1, 0]], [[1, 0], [0, 0]]],
         rd_class_ids = [2, 1], rd_rois = [(0, 0, 3, 3), (0, 0, 1, 1)],
         rd_scores = [99 / 100, 95 / 100], rd_area = Some [2, 1] \<rparr>]"

section \<open>Properties of the selector\<close>

lemma py_getitem_error: "py_getitem xs i = Inl e \<Longrightarrow> e = IndexError"
  by (auto simp: py_getitem_def Let_def split: if_splits)

lemma py_getitem_nat: "i < length xs \<Longrightarrow> py_getitem xs (int i) = Inr (xs ! i)"
  by (simp add: py_getitem_def)

lemma py_getitem_fails_iff:
  "(py_getitem xs i = Inl IndexError) \<longleftrightarrow> (i \<ge> int (length xs) \<or> i < - int (length xs))"
  by (auto simp: py_getitem_def Let_def)

lemma keep_loop_error: "keep_loop T sc i vs keep = Inl e \<Longrightarrow> e = IndexError"
  by (induction vs arbitrary: i keep)
     (auto split: sum.splits if_splits dest: py_getitem_error)

lemma keep_loop_bad_label:
  "\<exists>v\<in>set vs. py_getitem T (v - 1) = Inl IndexError \<Longrightarrow>
   keep_loop T sc i vs keep = Inl IndexError"
proof (induction vs arbitrary: i keep)
  case Nil
  then show ?case by simp
next
  case (Cons v vs)
  show ?case
  proof (cases "py_getitem T (v - 1)")
    case (Inl e)
    then show ?thesis by (simp add: py_getitem_error)
  next
    case (Inr t)
    with Cons.prems have bad: "\<exists>v\<in>set vs. py_getitem T (v - 1) = Inl IndexError" by auto
    show ?thesis
      using Inr Cons.IH[OF bad] by (auto split: sum.splits dest: py_getitem_error)
  qed
qed

lemma keep_loop_result:
  "i + length vs \<le> length sc \<Longrightarrow> \<forall>v\<in>set vs. \<exists>t. py_getitem T (v - 1) = Inr t \<Longrightarrow>
   keep_loop T sc i vs keep =
     Inr (keep @ map fst (filter (\<lambda>(j, v). passes T sc j v) (zip [i..<i + length vs] vs)))"
proof (induction vs arbitrary: i keep)
  case Nil
  then show ?case by simp
next
  case (Cons v vs)
  from Cons.prems obtain t where t: "py_getitem T (v - 1) = Inr t" by auto
  have i: "i < length sc" using Cons.prems by simp
  have z: "zip [i..<i + length (v # vs)] (v # vs) = (i, v) # zip [Suc i..<Suc i + length vs] vs"
    using upt_conv_Cons[of i "i + length (v # vs)"] by simp
  have IH: "\<And>k. keep_loop T sc (Suc i) vs k =
     Inr (k @ map fst (filter (\<lambda>(j, v). passes T sc j v) (zip [Suc i..<Suc i + length vs] vs)))"
    using Cons.prems by (intro Cons.IH) auto
  show ?case
    unfolding z by (simp add: t py_getitem_nat[OF i] IH passes_def)
qed

lemma zip_upt_nth: "zip [0..<length vs] vs = map (\<lambda>j. (j, vs ! j)) [0..<length vs]"
  by (rule nth_equalityI) auto

lemma kept_indices_alt:
  "map fst (filter (\<lambda>(j, v). passes T (filter_scores P) j v) (zip [0..<length (labels P)] (labels P)))
   = kept_indices T P"
  unfolding zip_upt_nth kept_indices_def passes_def
  by (simp add: filter_map comp_def)

lemma keep_loop_kept_indices:
  assumes "length (labels P) \<le> length (filter_scores P)"
    and "\<forall>v\<in>set (labels P). \<exists>t. py_getitem T (v - 1) = Inr t"
  shows "keep_loop T (filter_scores P) 0 (labels P) [] = Inr (kept_indices T P)"
  using keep_loop_result[of 0 "labels P" "filter_scores P" T "[]"] assms
  by (simp add: kept_indices_alt)

lemma keep_loop_Inr_labels:
  "keep_loop T sc i vs keep = Inr r \<Longrightarrow> \<forall>v\<in>set vs. \<exists>t. py_getitem T (v - 1) = Inr t"
proof (rule ccontr)
  assume r: "keep_loop T sc i vs keep = Inr r"
  assume "\<not> (\<forall>v\<in>set vs. \<exists>t. py_getitem T (v - 1) = Inr t)"
  then obtain v where "v \<in> set vs" "\<forall>t. py_getitem T (v - 1) \<noteq> Inr t" by auto
  then have "py_getitem T (v - 1) = Inl IndexError"
    by (cases "py_getitem T (v - 1)") (auto dest: py_getitem_error)
  with \<open>v \<in> set vs\<close> have "keep_loop T sc i vs keep = Inl IndexError"
    by (intro keep_loop_bad_label) auto
  with r show False by simp
qed

lemma filter_scores_length: "boxlist_ok P \<Longrightarrow> length (filter_scores P) = length (labels P)"
  by (auto simp: boxlist_ok_def filter_scores_def split: option.splits)

lemma kept_indices_bound: "i \<in> set (kept_indices T P) \<Longrightarrow> i < length (labels P)"
  by (simp add: kept_indices_def)

lemma boxlist_getitem_ok:
  "boxlist_ok P \<Longrightarrow> \<forall>i\<in>set idx. i < length (labels P) \<Longrightarrow> boxlist_getitem P idx = Inr (gather P idx)"
  by (auto simp: boxlist_getitem_def boxlist_ok_def rows_in_range_def list_all_iff split: option.splits)

lemma gather_ok: "boxlist_ok P \<Longrightarrow> boxlist_ok (gather P idx)"
  by (auto simp: boxlist_ok_def gather_def take_rows_def split: option.splits)

lemma gather_gather:
  "\<forall>j\<in>set b. j < length a \<Longrightarrow> gather (gather P a) b = gather P (take_rows a b)"
  by (cases "mask_scores P"; cases "mask P") (auto simp: gather_def take_rows_def)

lemma take_rows_all: "length xs = n \<Longrightarrow> take_rows xs [0..<n] = xs"
  by (auto simp: take_rows_def map_nth)

lemma gather_id: "boxlist_ok P \<Longrightarrow> gather P [0..<length (labels P)] = P"
  by (cases "mask_scores P"; cases "mask P")
     (simp_all add: boxlist_ok_def gather_def take_rows_all)

lemma sort_contract_set: "sort_contract srt \<Longrightarrow> set (srt xs) = {0..<length xs}"
  unfolding sort_contract_def by (metis mset_eq_setD set_upt)

lemma sort_contract_distinct: "sort_contract srt \<Longrightarrow> distinct (srt xs)"
  unfolding sort_contract_def by (metis distinct_upt mset_eq_imp_distinct_iff)

lemma sort_contract_length: "sort_contract srt \<Longrightarrow> length (srt xs) = length xs"
  unfolding sort_contract_def by (metis length_upt mset_eq_length minus_nat.diff_0)

lemma sort_contract_sorted:
  "sort_contract srt \<Longrightarrow> sorted_wrt (\<lambda>a b. a \<ge> b) (take_rows xs (srt xs))"
  unfolding sort_contract_def take_rows_def by blast

lemma sort_contract_mset: "sort_contract srt \<Longrightarrow> mset (take_rows xs (srt xs)) = mset xs"
proof -
  assume "sort_contract srt"
  then have "mset (srt xs) = mset [0..<length xs]" by (simp add: sort_contract_def)
  then have "mset (map ((!) xs) (srt xs)) = mset (map ((!) xs) [0..<length xs])"
    by (simp only: mset_map)
  then show ?thesis unfolding take_rows_def by (simp only: map_nth)
qed

lemma select_success:
  assumes ok: "boxlist_ok P" and c: "sort_contract srt"
    and lab: "\<forall>v\<in>set (labels P). \<exists>t. py_getitem T (v - 1) = Inr t"
  shows "select_top_predictions srt T P = Inr (gather P (selected_indices srt T P))"
proof -
  let ?keep = "kept_indices T P"
  have k: "keep_loop T (filter_scores P) 0 (labels P) [] = Inr ?keep"
    using keep_loop_kept_indices[OF _ lab] filter_scores_length[OF ok] by simp
  have g1: "boxlist_getitem P ?keep = Inr (gather P ?keep)"
    using boxlist_getitem_ok[OF ok] kept_indices_bound by blast
  let ?kept = "gather P ?keep"
  let ?idx = "srt (take_rows (scores P) ?keep)"
  have sk: "scores ?kept = take_rows (scores P) ?keep" by (simp add: gather_def)
  have len: "length (labels ?kept) = length ?keep" by (simp add: gather_def take_rows_def)
  have sc: "length (take_rows (scores P) ?keep) = length ?keep" by (simp add: take_rows_def)
  have rng: "\<forall>j\<in>set ?idx. j < length ?keep"
    using sort_contract_set[OF c, of "take_rows (scores P) ?keep"] sc by auto
  have g2: "boxlist_getitem ?kept ?idx = Inr (gather ?kept ?idx)"
    using boxlist_getitem_ok[OF gather_ok[OF ok]] rng len by simp
  have g3: "gather ?kept ?idx = gather P (take_rows ?keep ?idx)"
    using gather_gather rng by blast
  show ?thesis
    unfolding select_top_predictions_def k sum.case g1 sk g2 g3 selected_indices_def Let_def ..
qed

lemma select_Inr_labels:
  "select_top_predictions srt T P = Inr R \<Longrightarrow> \<forall>v\<in>set (labels P). \<exists>t. py_getitem T (v - 1) = Inr t"
  unfolding select_top_predictions_def
  by (auto split: sum.splits dest: keep_loop_Inr_labels)

lemma selected_indices_mset:
  assumes c: "sort_contract srt"
  shows "mset (selected_indices srt T P) = mset (kept_indices T P)"
proof -
  let ?keep = "kept_indices T P"
  let ?xs = "take_rows (scores P) ?keep"
  have l: "length ?xs = length ?keep" by (simp add: take_rows_def)
  have "mset (srt ?xs) = mset [0..<length ?keep]"
    using c l by (simp add: sort_contract_def)
  then have "mset (map ((!) ?keep) (srt ?xs)) = mset (map ((!) ?keep) [0..<length ?keep])"
    by (simp only: mset_map)
  then show ?thesis
    unfolding selected_indices_def Let_def take_rows_def by (simp only: map_nth)
qed

lemma argsort_desc_stable_contract: "sort_contract argsort_desc_stable"
proof -
  have "sorted_wrt (\<lambda>a b. a \<ge> b) (map ((!) xs) (argsort_desc_stable xs))" for xs :: "real list"
  proof -
    have "sorted (map (\<lambda>i. - (xs ! i)) (argsort_desc_stable xs))"
      unfolding argsort_desc_stable_def by (rule sorted_sort_key)
    then show ?thesis by (simp add: sorted_map sorted_wrt_map)
  qed
  then show ?thesis
    by (simp add: sort_contract_def) (simp add: argsort_desc_stable_def)
qed

lemma insort_key_map:
  assumes "g a = f (h a)" "\<forall>x\<in>set xs. g x = f (h x)"
  shows "map h (insort_key g a xs) = insort_key f (h a) (map h xs)"
  using assms by (induction xs) simp_all

lemma sort_key_map:
  "\<forall>x\<in>set xs. g x = f (h x) \<Longrightarrow> map h (sort_key g xs) = sort_key f (map h xs)"
proof (induction xs)
  case Nil
  then show ?case by simp
next
  case (Cons a xs)
  have ga: "g a = f (h a)" and gs: "\<forall>x\<in>set xs. g x = f (h x)" using Cons.prems by simp_all
  have gs': "\<forall>x\<in>set (sort_key g xs). g x = f (h x)" using gs by simp
  have "map h (sort_key g (a # xs)) = map h (insort_key g a (sort_key g xs))"
    by (simp add: sort_key_def)
  also have "\<dots> = insort_key f (h a) (map h (sort_key g xs))"
    using ga gs' by (rule insort_key_map[where g = g and f = f and h = h])
  also have "\<dots> = insort_key f (h a) (sort_key f (map h xs))"
    by (simp only: Cons.IH[OF gs])
  finally show ?case by (simp add: sort_key_def)
qed

lemma selected_indices_stable:
  "selected_indices argsort_desc_stable T P = sort_key (\<lambda>i. - (scores P ! i)) (kept_indices T P)"
proof -
  let ?keep = "kept_indices T P"
  let ?g = "\<lambda>j. - (map ((!) (scores P)) ?keep ! j)"
  let ?f = "\<lambda>i. - (scores P ! i)"
  have "\<forall>x\<in>set [0..<length ?keep]. ?g x = ?f (?keep ! x)" by simp
  then have "map ((!) ?keep) (sort_key ?g [0..<length ?keep])
      = sort_key ?f (map ((!) ?keep) [0..<length ?keep])"
    by (rule sort_key_map[where g = ?g and f = ?f and h = "(!) ?keep"])
  then show ?thesis
    by (simp add: selected_indices_def Let_def take_rows_def argsort_desc_stable_def map_nth)
qed

lemma sorted_wrt_filter_nth:
  assumes s: "sorted_wrt R (filter Q xs)" and pq: "p < q" "q < length xs"
    and Qp: "Q (xs ! p)" and Qq: "Q (xs ! q)"
  shows "R (xs ! p) (xs ! q)"
proof -
  have xs: "xs = take p xs @ xs ! p # drop (Suc p) xs"
    using pq by (intro id_take_nth_drop) simp
  have "drop (Suc p) xs ! (q - Suc p) = xs ! q" using pq by simp
  moreover have "q - Suc p < length (drop (Suc p) xs)" using pq by simp
  ultimately have "xs ! q \<in> set (drop (Suc p) xs)" by (metis nth_mem)
  then have q: "xs ! q \<in> set (filter Q (drop (Suc p) xs))" using Qq by simp
  have "filter Q xs = filter Q (take p xs) @ xs ! p # filter Q (drop (Suc p) xs)"
    by (subst xs) (simp add: Qp)
  with s have "sorted_wrt R (filter Q (take p xs) @ xs ! p # filter Q (drop (Suc p) xs))"
    by simp
  then show ?thesis using q by (simp add: sorted_wrt_append)
qed

lemma kept_indices_sorted: "sorted_wrt (<) (kept_indices T P)"
  unfolding kept_indices_def by (rule sorted_wrt_filter) simp

lemma stable_ties:
  fixes f :: "nat \<Rightarrow> real"
  assumes ks: "sorted_wrt (<) ks"
    and pq: "p < q" "q < length (sort_key f ks)"
    and eq: "f (sort_key f ks ! p) = f (sort_key f ks ! q)"
  shows "sort_key f ks ! p < sort_key f ks ! q"
proof -
  let ?ix = "sort_key f ks"
  let ?Q = "\<lambda>y. f y = f (?ix ! p)"
  have "filter ?Q ?ix = filter ?Q ks" by (rule sort_key_stable)
  then have s: "sorted_wrt (<) (filter ?Q ?ix)"
    using ks by (simp add: sorted_wrt_filter)
  show ?thesis
    by (rule sorted_wrt_filter_nth[where Q = ?Q and R = "(<)", OF s pq]) (simp_all add: eq)
qed

lemma gather_scores: "scores (gather P ix) = take_rows (scores P) ix"
  by (simp add: gather_def)

lemma gather_labels: "labels (gather P ix) = take_rows (labels P) ix"
  by (simp add: gather_def)

lemma gather_len: "boxlist_len (gather P ix) = length ix"
  by (simp add: gather_def boxlist_len_def take_rows_def)

lemma gather_filter_scores: "filter_scores (gather P ix) = take_rows (filter_scores P) ix"
  by (cases "mask_scores P") (simp_all add: gather_def filter_scores_def)

lemma selected_indices_sorted:
  assumes c: "sort_contract srt"
  shows "sorted_wrt (\<lambda>a b. a \<ge> b) (take_rows (scores P) (selected_indices srt T P))"
proof -
  let ?keep = "kept_indices T P"
  let ?xs = "take_rows (scores P) ?keep"
  have rng: "\<forall>j\<in>set (srt ?xs). j < length ?keep"
    using sort_contract_set[OF c, of ?xs] by (simp add: take_rows_def)
  have "take_rows (scores P) (selected_indices srt T P) = take_rows ?xs (srt ?xs)"
    using rng by (simp add: selected_indices_def Let_def take_rows_def)
  then show ?thesis using sort_contract_sorted[OF c, of ?xs] by simp
qed

lemma kept_indices_set:
  "set (kept_indices T P) =
     {i. i < length (labels P) \<and> (\<exists>t. py_getitem T (labels P ! i - 1) = Inr t \<and> filter_scores P ! i > t)}"
proof -
  have "(case py_getitem T v of Inl e \<Rightarrow> False | Inr t \<Rightarrow> s > t) \<longleftrightarrow>
        (\<exists>t. py_getitem T v = Inr t \<and> s > t)" for v and s :: real
    by (cases "py_getitem T v") auto
  then show ?thesis by (auto simp: kept_indices_def)
qed

lemma select_result:
  assumes ok: "boxlist_ok P" and c: "sort_contract srt"
    and r: "select_top_predictions srt T P = Inr R"
  shows "R = gather P (selected_indices srt T P)"
  using select_success[OF ok c select_Inr_labels[OF r]] r by simp

lemma resort_id:
  assumes c: "sort_contract srt" and s: "sorted_wrt (\<lambda>a b. a \<ge> b) xs"
    and d: "srt = argsort_desc_stable \<or> distinct xs"
  shows "srt xs = [0..<length xs]"
  using d
proof
  assume st: "srt = argsort_desc_stable"
  have "map (\<lambda>i. - (xs ! i)) [0..<length xs] = map uminus xs"
    by (rule nth_equalityI) simp_all
  moreover have "sorted (map uminus xs)" using s by (simp add: sorted_map)
  ultimately have "sorted (map (\<lambda>i. - (xs ! i)) [0..<length xs])" by simp
  then show ?thesis unfolding st argsort_desc_stable_def by (rule sort_key_id_if_sorted)
next
  assume dx: "distinct xs"
  let ?ix = "srt xs"
  let ?ys = "take_rows xs ?ix"
  have m: "mset ?ys = mset xs" by (rule sort_contract_mset[OF c])
  have "sorted (map uminus ?ys)"
    using sort_contract_sorted[OF c, of xs] by (simp add: sorted_map)
  moreover have "sorted (map uminus xs)" using s by (simp add: sorted_map)
  moreover have "mset (map uminus ?ys) = mset (map uminus xs)" using m by simp
  ultimately have "map uminus ?ys = map uminus xs"
    by (metis properties_for_sort)
  then have "?ys = xs" by (simp add: inj_map_eq_map)
  then have e: "map ((!) xs) ?ix = map ((!) xs) [0..<length xs]"
    by (simp add: take_rows_def map_nth)
  have "inj_on ((!) xs) {0..<length xs}"
    using dx by (auto simp: inj_on_def nth_eq_iff_index_eq)
  then have "inj_on ((!) xs) (set ?ix \<union> set [0..<length xs])"
    using sort_contract_set[OF c, of xs] by simp
  then show ?thesis using e by (simp only: inj_on_map_eq_map)
qed

lemma kept_indices_all:
  assumes "\<forall>j<length (labels R). \<exists>t. py_getitem T (labels R ! j - 1) = Inr t \<and> filter_scores R ! j > t"
  shows "kept_indices T R = [0..<length (labels R)]"
  unfolding kept_indices_def using assms by (intro filter_True) auto

lemma select_again:
  assumes ok: "boxlist_ok P" and c: "sort_contract srt"
    and r: "select_top_predictions srt T P = Inr R"
    and d: "srt = argsort_desc_stable \<or> distinct (scores R)"
  shows "select_top_predictions srt T R = Inr R"
proof -
  let ?ix = "selected_indices srt T P"
  have R: "R = gather P ?ix" by (rule select_result[OF ok c r])
  have okR: "boxlist_ok R" unfolding R by (rule gather_ok[OF ok])
  have len: "length (labels R) = length ?ix" by (simp add: R gather_def take_rows_def)
  have sub: "set ?ix = set (kept_indices T P)"
    using selected_indices_mset[OF c, of T P] by (rule mset_eq_setD)
  have pass: "\<exists>t. py_getitem T (labels R ! j - 1) = Inr t \<and> filter_scores R ! j > t"
    if j: "j < length ?ix" for j
  proof -
    have "?ix ! j \<in> set (kept_indices T P)" using j sub nth_mem by blast
    then have "\<exists>t. py_getitem T (labels P ! (?ix ! j) - 1) = Inr t \<and> filter_scores P ! (?ix ! j) > t"
      by (simp add: kept_indices_set)
    then show ?thesis using j by (simp add: R gather_labels gather_filter_scores take_rows_def)
  qed
  then have k: "kept_indices T R = [0..<length (labels R)]"
    by (intro kept_indices_all) (simp add: len)
  have lab: "\<forall>v\<in>set (labels R). \<exists>t. py_getitem T (v - 1) = Inr t"
    using pass len by (metis in_set_conv_nth)
  have sR: "sorted_wrt (\<lambda>a b. a \<ge> b) (scores R)"
    unfolding R gather_scores by (rule selected_indices_sorted[OF c])
  have ls: "length (scores R) = length (labels R)" using okR by (simp add: boxlist_ok_def)
  have t: "take_rows (scores R) [0..<length (labels R)] = scores R"
    by (rule take_rows_all[OF ls])
  have e: "srt (scores R) = [0..<length (labels R)]"
    using resort_id[OF c sR d] ls by simp
  have "selected_indices srt T R =
          take_rows [0..<length (labels R)] (srt (take_rows (scores R) [0..<length (labels R)]))"
    by (simp add: selected_indices_def k Let_def)
  also have "\<dots> = take_rows [0..<length (labels R)] [0..<length (labels R)]"
    by (simp only: t e)
  also have "\<dots> = [0..<length (labels R)]"
    by (rule take_rows_all) simp
  finally have "selected_indices srt T R = [0..<length (labels R)]" .
  then show ?thesis
    using select_success[OF okR c lab] gather_id[OF okR] by simp
qed

lemma selected_indices_empty:
  assumes c: "sort_contract srt" and k: "kept_indices T P = []"
  shows "selected_indices srt T P = []"
proof -
  have "length (srt []) = 0" using sort_contract_length[OF c, of "[]"] by simp
  then show ?thesis by (simp add: selected_indices_def k take_rows_def)
qed

lemma select_empty_input:
  assumes ok: "boxlist_ok P" and c: "sort_contract srt" and n: "boxlist_len P = 0"
  shows "select_top_predictions srt T P = Inr P"
proof -
  have l: "labels P = []" using ok n by (simp add: boxlist_ok_def boxlist_len_def)
  then have k: "kept_indices T P = []" by (simp add: kept_indices_def)
  have "select_top_predictions srt T P = Inr (gather P (selected_indices srt T P))"
    using ok c by (rule select_success) (simp add: l)
  moreover have "gather P [] = P" using gather_id[OF ok] by (simp add: l)
  ultimately show ?thesis by (simp add: selected_indices_empty[OF c k])
qed

subsection \<open>Evaluating the examples\<close>

lemmas select_eval =
  select_top_predictions_def filter_scores_def py_getitem_def boxlist_getitem_def
  rows_in_range_def gather_def take_rows_def argsort_desc_stable_def
  upt_rec

lemma ex_dets_ok: "boxlist_ok ex_dets"
  by (simp add: boxlist_ok_def ex_dets_def)

lemma ex_dets_select:
  "select_top_predictions argsort_desc_stable ex_thresholds ex_dets = Inr ex_selected"
  by (simp add: ex_dets_def ex_thresholds_def ex_selected_def select_eval)

text \<open>
  The library sort on tied scores: up to 16 values only the insertion sort runs and equal
  values stay in input order; from 17 values on the partition step moves them.
\<close>

lemma argsort_desc_std_two_ties: "argsort_desc_std [9/10, 9/10] = [0, 1]"
  by code_simp

lemma argsort_desc_std_sixteen_ties: "argsort_desc_std (replicate 16 (9/10)) = [0..<16]"
  by code_simp

lemma argsort_desc_std_seventeen_ties:
  "argsort_desc_std (replicate 17 (9/10)) =
     [8, 16, 15, 14, 13, 12, 11, 10, 9, 0, 7, 6, 5, 4, 3, 2, 1]"
  by code_simp

section \<open>Claims about the selector\<close>

text \<open>
  Claim C1, as amended.  When \<^verbatim>\<open>select_top_predictions\<close> returns, its output is the input
  read at \<open>selected_indices\<close>, which lists, without repetition, exactly the positions whose
  filter score is strictly above the threshold looked up for their label
  (\<^verbatim>\<open>confidence_threshold[label - 1]\<close>).  The filter score is the mask score when the set
  carries \<^verbatim>\<open>mask_scores\<close> and the raw score otherwise.  The subsequent sort orders the
  output by the raw \<^verbatim>\<open>scores\<close> field, not by the mask score.
\<close>

theorem select_keeps_above_threshold:
  assumes "boxlist_ok P" and "sort_contract srt"
    and "select_top_predictions srt T P = Inr R"
  shows "R = gather P (selected_indices srt T P) \<and>
         distinct (selected_indices srt T P) \<and>
         set (selected_indices srt T P) =
           {i. i < boxlist_len P \<and>
               (\<exists>t. py_getitem T (labels P ! i - 1) = Inr t \<and> filter_scores P ! i > t)} \<and>
         (\<forall>ms. mask_scores P = Some ms \<longrightarrow> filter_scores P = ms) \<and>
         (mask_scores P = None \<longrightarrow> filter_scores P = scores P) \<and>
         sorted_wrt (\<lambda>a b. a \<ge> b) (scores R)"
proof -
  have R: "R = gather P (selected_indices srt T P)"
    using assms by (rule select_result)
  have m: "mset (selected_indices srt T P) = mset (kept_indices T P)"
    using assms(2) by (rule selected_indices_mset)
  have "distinct (kept_indices T P)" by (simp add: kept_indices_def)
  then have d: "distinct (selected_indices srt T P)"
    using m mset_eq_imp_distinct_iff by blast
  have n: "boxlist_len P = length (labels P)"
    using assms(1) by (simp add: boxlist_ok_def boxlist_len_def)
  have s: "set (selected_indices srt T P) =
           {i. i < boxlist_len P \<and>
               (\<exists>t. py_getitem T (labels P ! i - 1) = Inr t \<and> filter_scores P ! i > t)}"
    using mset_eq_setD[OF m] by (simp add: kept_indices_set n)
  have f: "(\<forall>ms. mask_scores P = Some ms \<longrightarrow> filter_scores P = ms) \<and>
           (mask_scores P = None \<longrightarrow> filter_scores P = scores P)"
    by (simp add: filter_scores_def)
  have o: "sorted_wrt (\<lambda>a b. a \<ge> b) (scores R)"
    unfolding R gather_scores using assms(2) by (rule selected_indices_sorted)
  show ?thesis using R d s f o by blast
qed

theorem select_keeps_above_threshold_witness:
  "boxlist_ok ex_dets \<and> sort_contract argsort_desc_stable \<and>
   select_top_predictions argsort_desc_stable ex_thresholds ex_dets = Inr ex_selected \<and>
   set (selected_indices argsort_desc_stable ex_thresholds ex_dets) =
           {i. i < boxlist_len ex_dets \<and>
               (\<exists>t. py_getitem ex_thresholds (labels ex_dets ! i - 1) = Inr t \<and>
                    filter_scores ex_dets ! i > t)} \<and>
   selected_indices argsort_desc_stable ex_thresholds ex_dets = [2, 0] \<and>
   sorted_wrt (\<lambda>a b. a \<ge> b) (scores ex_selected)"
proof -
  have i: "selected_indices argsort_desc_stable ex_thresholds ex_dets = [2, 0]"
    by (simp add: selected_indices_def kept_indices_def ex_dets_def ex_thresholds_def select_eval)
  show ?thesis
    using select_keeps_above_threshold[OF ex_dets_ok argsort_desc_stable_contract ex_dets_select]
      ex_dets_ok argsort_desc_stable_contract ex_dets_select i
    by blast
qed

text \<open>
  Against C1 as written: with mask scores \<open>[0.6, 0.9]\<close> and raw scores \<open>[0.95, 0.7]\<close> both
  detections pass the filter, and the output keeps the raw-score order, in which the mask
  scores are increasing.  The stable sort and the library sort agree, as the raw scores are
  distinct.
\<close>

theorem select_sort_key_counterexample:
  "select_top_predictions argsort_desc_stable [1/2]
     \<lparr> bbox = [(0, 0, 1, 1), (0, 0, 2, 2)], labels = [1, 1], scores = [95/100, 70/100],
       mask_scores = Some [60/100, 90/100], mask = None \<rparr>
   = Inr \<lparr> bbox = [(0, 0, 1, 1), (0, 0, 2, 2)], labels = [1, 1], scores = [95/100, 70/100],
       mask_scores = Some [60/100, 90/100], mask = None \<rparr> \<and>
   select_top_predictions argsort_desc_std [1/2]
     \<lparr> bbox = [(0, 0, 1, 1), (0, 0, 2, 2)], labels = [1, 1], scores = [95/100, 70/100],
       mask_scores = Some [60/100, 90/100], mask = None \<rparr>
   = Inr \<lparr> bbox = [(0, 0, 1, 1), (0, 0, 2, 2)], labels = [1, 1], scores = [95/100, 70/100],
       mask_scores = Some [60/100, 90/100], mask = None \<rparr> \<and>
   \<not> sorted_wrt (\<lambda>a b. a \<ge> b) [60/100, 90/100 :: real]"
  by (intro conjI) code_simp+

text \<open>
  Against C2 as written: label \<open>0\<close> has no entry in a one-class threshold table, yet the
  lookup \<^verbatim>\<open>confidence_threshold[-1]\<close> succeeds and the detection is kept.
\<close>

theorem select_missing_threshold_counterexample:
  "\<not> has_threshold_entry [1/2] 0 \<and>
   select_top_predictions argsort_desc_stable [1/2] ex_background = Inr ex_background \<and>
   select_top_predictions argsort_desc_std [1/2] ex_background = Inr ex_background"
  by (intro conjI) code_simp+

text \<open>
  Claim C2, as amended.  If some detection has a label \<open>L\<close> with \<open>L - 1\<close> outside Python's
  index range of the table, that is \<open>L > length T\<close> or \<open>L \<le> - length T\<close>, the whole call
  fails with \<^verbatim>\<open>IndexError\<close>; no detection is skipped.  If every label lies in
  \<open>- length T < L \<le> length T\<close>, a well-formed set is selected without error: a label from
  \<open>1\<close> to \<open>length T\<close> reads entry \<open>L - 1\<close>, and a label from \<open>- length T + 1\<close> to \<open>0\<close> has
  no entry of its own but wraps around to entry \<open>L - 1 + length T\<close>.
\<close>

theorem select_label_range:
  "((\<exists>L\<in>set (labels P). L > int (length T) \<or> L \<le> - int (length T)) \<longrightarrow>
      select_top_predictions srt T P = Inl IndexError) \<and>
   (boxlist_ok P \<and> sort_contract srt \<and>
    (\<forall>L\<in>set (labels P). - int (length T) < L \<and> L \<le> int (length T)) \<longrightarrow>
      select_top_predictions srt T P = Inr (gather P (selected_indices srt T P))) \<and>
   (\<forall>L. 1 \<le> L \<and> L \<le> int (length T) \<longrightarrow>
      py_getitem T (L - 1) = Inr (T ! nat (L - 1))) \<and>
   (\<forall>L. - int (length T) < L \<and> L \<le> 0 \<longrightarrow>
      py_getitem T (L - 1) = Inr (T ! nat (L - 1 + int (length T))))"
proof (intro conjI impI allI)
  assume "\<exists>L\<in>set (labels P). L > int (length T) \<or> L \<le> - int (length T)"
  then obtain L where L: "L \<in> set (labels P)"
    and "L - 1 \<ge> int (length T) \<or> L - 1 < - int (length T)" by auto
  then have "py_getitem T (L - 1) = Inl IndexError" by (simp only: py_getitem_fails_iff)
  with L have "keep_loop T (filter_scores P) 0 (labels P) [] = Inl IndexError"
    by (intro keep_loop_bad_label) blast
  then show "select_top_predictions srt T P = Inl IndexError"
    by (simp add: select_top_predictions_def)
next
  assume a: "boxlist_ok P \<and> sort_contract srt \<and>
    (\<forall>L\<in>set (labels P). - int (length T) < L \<and> L \<le> int (length T))"
  have "\<forall>v\<in>set (labels P). \<exists>t. py_getitem T (v - 1) = Inr t"
  proof
    fix v assume "v \<in> set (labels P)"
    then have "- int (length T) < v \<and> v \<le> int (length T)" using a by blast
    then have "\<not> (v - 1 \<ge> int (length T) \<or> v - 1 < - int (length T))" by linarith
    then have "py_getitem T (v - 1) \<noteq> Inl IndexError"
      by (simp only: py_getitem_fails_iff not_False_eq_True)
    then show "\<exists>t. py_getitem T (v - 1) = Inr t"
      by (cases "py_getitem T (v - 1)") (auto dest: py_getitem_error)
  qed
  with a show "select_top_predictions srt T P = Inr (gather P (selected_indices srt T P))"
    by (intro select_success) auto
next
  fix L :: int assume "1 \<le> L \<and> L \<le> int (length T)"
  then show "py_getitem T (L - 1) = Inr (T ! nat (L - 1))"
    by (simp add: py_getitem_def)
next
  fix L :: int assume "- int (length T) < L \<and> L \<le> 0"
  then show "py_getitem T (L - 1) = Inr (T ! nat (L - 1 + int (length T)))"
    by (simp add: py_getitem_def)
qed

theorem select_label_range_witness:
  "(\<exists>L\<in>set (labels ex_dets). L > int (length [1/2::real]) \<or> L \<le> - int (length [1/2::real])) \<and>
   select_top_predictions argsort_desc_stable [1/2] ex_dets = Inl IndexError \<and>
   boxlist_ok ex_background \<and> sort_contract argsort_desc_stable \<and>
   labels ex_background = [0] \<and>
   select_top_predictions argsort_desc_stable [1/2] ex_background =
     Inr (gather ex_background (selected_indices argsort_desc_stable [1/2] ex_background)) \<and>
   py_getitem [1/2::real] (1 - 1) = Inr ([1/2] ! nat (1 - 1)) \<and>
   py_getitem [1/2::real] (0 - 1) = Inr ([1/2] ! nat (0 - 1 + int (length [1/2::real])))"
proof -
  note t = select_label_range[of ex_dets "[1/2]" argsort_desc_stable]
  note u = select_label_range[of ex_background "[1/2]" argsort_desc_stable]
  have h: "\<exists>L\<in>set (labels ex_dets). L > int (length [1/2::real]) \<or> L \<le> - int (length [1/2::real])"
    by (simp add: ex_dets_def)
  have b: "boxlist_ok ex_background" by (simp add: boxlist_ok_def ex_background_def)
  have l: "labels ex_background = [0]" by (simp add: ex_background_def)
  have r: "\<forall>L\<in>set (labels ex_background). - int (length [1/2::real]) < L \<and> L \<le> int (length [1/2::real])"
    by (simp add: l)
  have f: "select_top_predictions argsort_desc_stable [1/2] ex_dets = Inl IndexError"
    using t h by blast
  have g: "select_top_predictions argsort_desc_stable [1/2] ex_background =
     Inr (gather ex_background (selected_indices argsort_desc_stable [1/2] ex_background))"
    using u b argsort_desc_stable_contract r by blast
  have p1: "py_getitem [1/2::real] (1 - 1) = Inr ([1/2] ! nat (1 - 1))"
    by (rule u[THEN conjunct2, THEN conjunct2, THEN conjunct1, rule_format, of 1]) simp
  have p0: "py_getitem [1/2::real] (0 - 1) = Inr ([1/2] ! nat (0 - 1 + int (length [1/2::real])))"
    by (rule u[THEN conjunct2, THEN conjunct2, THEN conjunct2, rule_format, of 0]) simp
  show ?thesis
    by (intro conjI) (rule h f b argsort_desc_stable_contract l g p1 p0)+
qed

text \<open>
  Claim C9.  With a non-empty threshold table, the lookup for label \<open>0\<close> is
  \<^verbatim>\<open>confidence_threshold[-1]\<close>, the last entry.  A set whose labels are background or
  in-table classes is selected without error, and a background-labelled detection is kept
  exactly when its filter score is above the last threshold.
\<close>

theorem select_background_label:
  assumes "T \<noteq> []" and "boxlist_ok P" and "sort_contract srt"
    and "\<forall>L\<in>set (labels P). 0 \<le> L \<and> L \<le> int (length T)"
  shows "py_getitem T (0 - 1) = Inr (last T) \<and>
         select_top_predictions srt T P = Inr (gather P (selected_indices srt T P)) \<and>
         (\<forall>i<boxlist_len P. labels P ! i = 0 \<longrightarrow>
            (i \<in> set (selected_indices srt T P) \<longleftrightarrow> filter_scores P ! i > last T))"
proof -
  have l: "py_getitem T (0 - 1) = Inr (last T)"
  proof -
    have "0 < length T" using assms(1) by simp
    moreover have "nat (int (length T) - 1) = length T - 1" by simp
    ultimately show ?thesis using assms(1)
      by (simp add: py_getitem_def last_conv_nth Suc_le_eq)
  qed
  have lab: "\<forall>v\<in>set (labels P). \<exists>t. py_getitem T (v - 1) = Inr t"
  proof
    fix v assume "v \<in> set (labels P)"
    then have "0 \<le> v \<and> v \<le> int (length T)" using assms(4) by blast
    moreover have "0 < int (length T)" using assms(1) by simp
    ultimately have "\<not> (v - 1 \<ge> int (length T) \<or> v - 1 < - int (length T))" by linarith
    then have "py_getitem T (v - 1) \<noteq> Inl IndexError"
      by (simp only: py_getitem_fails_iff not_False_eq_True)
    then show "\<exists>t. py_getitem T (v - 1) = Inr t"
      by (cases "py_getitem T (v - 1)") (auto dest: py_getitem_error)
  qed
  have s: "select_top_predictions srt T P = Inr (gather P (selected_indices srt T P))"
    using assms(2,3) lab by (rule select_success)
  have n: "boxlist_len P = length (labels P)"
    using assms(2) by (simp add: boxlist_ok_def boxlist_len_def)
  have m: "set (selected_indices srt T P) = set (kept_indices T P)"
    using selected_indices_mset[OF assms(3)] by (rule mset_eq_setD)
  have "\<forall>i<boxlist_len P. labels P ! i = 0 \<longrightarrow>
            (i \<in> set (selected_indices srt T P) \<longleftrightarrow> filter_scores P ! i > last T)"
    using l by (simp add: m kept_indices_set n)
  with l s show ?thesis by blast
qed

theorem select_background_label_witness:
  "[1/2::real] \<noteq> [] \<and> boxlist_ok ex_background \<and> sort_contract argsort_desc_stable \<and>
   labels ex_background = [0] \<and>
   py_getitem [1/2::real] (0 - 1) = Inr (last [1/2]) \<and>
   select_top_predictions argsort_desc_stable [1/2] ex_background
     = Inr (gather ex_background (selected_indices argsort_desc_stable [1/2] ex_background))"
proof -
  have a: "[1/2::real] \<noteq> []" by simp
  have b: "boxlist_ok ex_background" by (simp add: boxlist_ok_def ex_background_def)
  have c: "\<forall>L\<in>set (labels ex_background). 0 \<le> L \<and> L \<le> int (length [1/2::real])"
    by (simp add: ex_background_def)
  have d: "labels ex_background = [0]" by (simp add: ex_background_def)
  show ?thesis
    using select_background_label[OF a b argsort_desc_stable_contract c] a b d
      argsort_desc_stable_contract by blast
qed

text \<open>
  Claim C3, as amended.  The output's raw scores are non-increasing and the output is a
  reordering of the detections that pass the filter.  Detections with equal scores keep
  their input order when the sort is the stable one; the contract of the sort alone does not
  fix their order.  An empty input is returned as it is, and when every label has a
  threshold but no detection passes, the result is the empty set, not an error.
\<close>

theorem select_sorted_descending:
  assumes "boxlist_ok P" and "sort_contract srt"
  shows "(\<forall>R. select_top_predictions srt T P = Inr R \<longrightarrow>
            sorted_wrt (\<lambda>a b. a \<ge> b) (scores R) \<and>
            R = gather P (selected_indices srt T P) \<and>
            mset (selected_indices srt T P) = mset (kept_indices T P)) \<and>
         (\<forall>R. select_top_predictions argsort_desc_stable T P = Inr R \<longrightarrow>
            (\<forall>p q. p < q \<and> q < boxlist_len R \<and> scores R ! p = scores R ! q \<longrightarrow>
               selected_indices argsort_desc_stable T P ! p
                 < selected_indices argsort_desc_stable T P ! q)) \<and>
         (boxlist_len P = 0 \<longrightarrow> select_top_predictions srt T P = Inr P) \<and>
         ((\<forall>L\<in>set (labels P). \<exists>t. py_getitem T (L - 1) = Inr t) \<and> kept_indices T P = [] \<longrightarrow>
            select_top_predictions srt T P = Inr (gather P []) \<and> boxlist_len (gather P []) = 0)"
proof (intro conjI allI impI)
  fix R assume r: "select_top_predictions srt T P = Inr R"
  show R: "R = gather P (selected_indices srt T P)"
    using assms r by (rule select_result)
  show "sorted_wrt (\<lambda>a b. a \<ge> b) (scores R)"
    unfolding R gather_scores using assms(2) by (rule selected_indices_sorted)
  show "mset (selected_indices srt T P) = mset (kept_indices T P)"
    using assms(2) by (rule selected_indices_mset)
next
  fix R p q
  assume r: "select_top_predictions argsort_desc_stable T P = Inr R"
    and pq: "p < q \<and> q < boxlist_len R \<and> scores R ! p = scores R ! q"
  let ?ix = "selected_indices argsort_desc_stable T P"
  let ?f = "\<lambda>i. - (scores P ! i)"
  have R: "R = gather P ?ix"
    using assms(1) argsort_desc_stable_contract r by (rule select_result)
  have ix: "?ix = sort_key ?f (kept_indices T P)" by (rule selected_indices_stable)
  have q: "q < length ?ix" using pq by (simp add: R gather_len)
  have p: "p < length ?ix" using pq q by simp
  have "scores R ! p = scores P ! (?ix ! p)" "scores R ! q = scores P ! (?ix ! q)"
    using p q by (simp_all add: R gather_scores take_rows_def)
  then have e: "?f (?ix ! p) = ?f (?ix ! q)"
    using pq by simp
  show "?ix ! p < ?ix ! q"
    unfolding ix
    by (rule stable_ties[OF kept_indices_sorted]) (use pq q e in \<open>simp_all add: ix\<close>)
next
  assume "boxlist_len P = 0"
  with assms show "select_top_predictions srt T P = Inr P" by (rule select_empty_input)
next
  assume a: "(\<forall>L\<in>set (labels P). \<exists>t. py_getitem T (L - 1) = Inr t) \<and> kept_indices T P = []"
  then have "select_top_predictions srt T P = Inr (gather P (selected_indices srt T P))"
    using assms by (intro select_success) auto
  then show "select_top_predictions srt T P = Inr (gather P [])"
    using a by (simp add: selected_indices_empty[OF assms(2)])
next
  show "boxlist_len (gather P []) = 0" by (simp add: gather_len)
qed

theorem select_sorted_descending_witness:
  "boxlist_ok ex_dets \<and> sort_contract argsort_desc_stable \<and>
   select_top_predictions argsort_desc_stable ex_thresholds ex_dets = Inr ex_selected \<and>
   sorted_wrt (\<lambda>a b. a \<ge> b) (scores ex_selected) \<and>
   ex_selected = gather ex_dets (selected_indices argsort_desc_stable ex_thresholds ex_dets)"
  using select_sorted_descending[OF ex_dets_ok argsort_desc_stable_contract, of ex_thresholds]
    ex_dets_ok argsort_desc_stable_contract ex_dets_select
  by blast

text \<open>
  Against C3 as written: seventeen detections with the same score pass the filter, and the
  library sort returns them in another order than the input's: the detection at input
  position 8 comes first and the one at input position 0 only tenth.
\<close>

theorem select_tie_order_counterexample:
  "select_top_predictions argsort_desc_std [1/2] ex_ties17 = Inr ex_ties17_once \<and>
   scores ex_ties17 = replicate 17 (9/10) \<and>
   bbox ex_ties17_once ! 0 = bbox ex_ties17 ! 8 \<and>
   bbox ex_ties17_once ! 9 = bbox ex_ties17 ! 0 \<and>
   bbox ex_ties17 ! 0 \<noteq> bbox ex_ties17 ! 8"
  by (intro conjI) code_simp+

text \<open>
  Claim C4, as amended.  Selecting again with the same thresholds returns the first result
  unchanged whenever the sort is stable or the surviving raw scores are pairwise distinct.
\<close>

theorem select_idempotent:
  assumes "boxlist_ok P" and "sort_contract srt"
    and "select_top_predictions srt T P = Inr R"
    and "srt = argsort_desc_stable \<or> distinct (scores R)"
  shows "select_top_predictions srt T R = Inr R"
  using assms by (rule select_again)

theorem select_idempotent_witness:
  "boxlist_ok ex_dets \<and> sort_contract argsort_desc_stable \<and>
   select_top_predictions argsort_desc_stable ex_thresholds ex_dets = Inr ex_selected \<and>
   (argsort_desc_stable = argsort_desc_stable \<or> distinct (scores ex_selected)) \<and>
   select_top_predictions argsort_desc_stable ex_thresholds ex_selected = Inr ex_selected"
proof -
  have d: "argsort_desc_stable = argsort_desc_stable \<or> distinct (scores ex_selected)" by simp
  show ?thesis
    using select_idempotent[OF ex_dets_ok argsort_desc_stable_contract ex_dets_select d]
      ex_dets_ok argsort_desc_stable_contract ex_dets_select by blast
qed

text \<open>
  Against C4 as written: selecting the seventeen tied detections and selecting the result
  again give different orders, as the library sort permutes the ties a second time.
\<close>

theorem select_twice_counterexample:
  "select_top_predictions argsort_desc_std [1/2] ex_ties17 = Inr ex_ties17_once \<and>
   select_top_predictions argsort_desc_std [1/2] ex_ties17_once = Inr ex_ties17_twice \<and>
   ex_ties17_twice \<noteq> ex_ties17_once"
  by (intro conjI) code_simp+

section \<open>Properties of the renderer, the montage builder and the pipeline\<close>

lemma boxes_loop_fold:
  "boxes_loop api s a boxes colors =
     (s(a := fold (\<lambda>(b, c). draw_box api b c) (zip boxes colors) (s a)), a)"
proof (induction boxes arbitrary: s colors)
  case Nil
  then show ?case by simp
next
  case (Cons b boxes)
  show ?case
  proof (cases colors)
    case Nil
    then show ?thesis by (cases b) simp
  next
    case (Cons c cs)
    obtain x1 y1 x2 y2 where b: "b = (x1, y1, x2, y2)" by (cases b) auto
    let ?s' = "s(a := draw_box api b c (s a))"
    have "boxes_loop api s a (b # boxes) (c # cs) = boxes_loop api ?s' a boxes cs"
      by (simp add: b cv2_rectangle_def draw_box_def)
    also have "\<dots> = (?s'(a := fold (\<lambda>(b, c). draw_box api b c) (zip boxes cs) (?s' a)), a)"
      by (rule Cons.IH)
    finally show ?thesis by (auto simp: Cons fun_eq_iff)
  qed
qed

lemma zip_as_indices:
  "length xs \<le> length ys \<Longrightarrow> zip xs ys = map (\<lambda>k. (xs ! k, ys ! k)) [0..<length xs]"
  by (rule nth_equalityI) simp_all

lemma overlay_boxes_char:
  assumes "length (bbox P) \<le> length (colormap api)"
  shows "overlay_boxes api s a P =
     (s(a := fold (\<lambda>k. draw_box api (bbox P ! k) (colormap api ! (k mod length (colormap api))))
                  [0..<length (bbox P)] (s a)), a)"
proof -
  let ?n = "length (bbox P)" and ?cs = "colormap api"
  have "fold (\<lambda>(b, c). draw_box api b c) (zip (bbox P) ?cs) (s a) =
        fold (\<lambda>k. draw_box api (bbox P ! k) (?cs ! k)) [0..<?n] (s a)"
    by (simp add: zip_as_indices[OF assms] fold_map comp_def)
  also have "\<dots> = fold (\<lambda>k. draw_box api (bbox P ! k) (?cs ! (k mod length ?cs))) [0..<?n] (s a)"
    using assms by (intro fold_cong) auto
  finally show ?thesis by (simp add: overlay_boxes_def boxes_loop_fold)
qed

lemmas render_eval =
  overlay_boxes_def cv2_rectangle_def to_int64_def ex_api_def raster_rectangle_def
  ex_canvas_def ex_one_box_def upt_rec

lemma mask_loop_char:
  "mask_loop api img areas ms cs =
     (fold (\<lambda>(m, c) im. drawContours api im (findContours api m) c) (zip ms cs) img,
      areas @ map count_ones (take (length cs) ms))"
proof (induction ms arbitrary: img areas cs)
  case Nil
  then show ?case by simp
next
  case (Cons m ms)
  show ?case
  proof (cases cs)
    case Nil
    then show ?thesis by simp
  next
    case (Cons c cs')
    then show ?thesis by (simp add: Cons.IH Let_def)
  qed
qed

lemma labels_drawn_twice:
  "display_text self \<Longrightarrow> overlay_class_names api base sel (display_score self) = Inr mid \<Longrightarrow>
   overlay_class_names api mid sel True = Inr out \<Longrightarrow> labels_drawn api self sel out"
  unfolding labels_drawn_def by auto

lemma labels_drawn_once:
  "\<not> display_text self \<Longrightarrow> overlay_class_names api base sel True = Inr out \<Longrightarrow>
   labels_drawn api self sel out"
  unfolding labels_drawn_def by auto

lemma run_loop_step:
  assumes "run_loop api self imgs z i (P # rest) results datas =
             Inr (Ret_data_results_zeros D R z')"
  shows "\<exists>sel out d.
    select_top_predictions (tensor_sort api) (confidence_threshold self) P = Inr sel \<and>
    labels_drawn api self sel out \<and>
    run_loop api self imgs z (i + 1) rest (results @ [out]) (datas @ [d]) =
       Inr (Ret_data_results_zeros D R z')"
  using assms
  by (simp add: Let_def split: if_splits sum.splits prod.splits option.splits)
     (blast intro: labels_drawn_twice labels_drawn_once)+

lemma run_loop_labels:
  "run_loop api self imgs z i preds results datas = Inr (Ret_data_results_zeros D R z') \<Longrightarrow>
   \<exists>new. R = results @ new \<and> length new = length preds \<and>
     (\<forall>k<length preds. \<exists>sel.
        select_top_predictions (tensor_sort api) (confidence_threshold self) (preds ! k) = Inr sel \<and>
        labels_drawn api self sel (new ! k))"
proof (induction preds arbitrary: i results datas)
  case Nil
  then show ?case by simp
next
  case (Cons P rest)
  from run_loop_step[OF Cons.prems] obtain sel out d where
    t: "select_top_predictions (tensor_sort api) (confidence_threshold self) P = Inr sel"
    and l: "labels_drawn api self sel out"
    and r: "run_loop api self imgs z (i + 1) rest (results @ [out]) (datas @ [d]) =
       Inr (Ret_data_results_zeros D R z')"
    by blast
  from Cons.IH[OF r] obtain new where
    n: "R = (results @ [out]) @ new" "length new = length rest"
    "\<forall>k<length rest. \<exists>sel.
        select_top_predictions (tensor_sort api) (confidence_threshold self) (rest ! k) = Inr sel \<and>
        labels_drawn api self sel (new ! k)"
    by blast
  have "\<forall>k<length (P # rest). \<exists>sel.
        select_top_predictions (tensor_sort api) (confidence_threshold self) ((P # rest) ! k) = Inr sel \<and>
        labels_drawn api self sel ((out # new) ! k)"
  proof (intro allI impI)
    fix k assume "k < length (P # rest)"
    then show "\<exists>sel.
        select_top_predictions (tensor_sort api) (confidence_threshold self) ((P # rest) ! k) = Inr sel \<and>
        labels_drawn api self sel ((out # new) ! k)"
      using t l n(3) by (cases k) auto
  qed
  moreover have "R = results @ (out # new)" using n(1) by simp
  moreover have "length (out # new) = length (P # rest)" using n(2) by simp
  ultimately show ?case by blast
qed

lemma ex_run:
  "run_on_opencv_image ex_run_api ex_config [ex_canvas] =
     Inr (Ret_data_results_zeros ex_rendered_data ex_rendered ())"
  by code_simp

lemma splice_length:
  assumes "length row = W" "length seg = w" "sx + w \<le> W"
  shows "length (take sx row @ seg @ drop (sx + w) row) = W"
  using assms by simp

lemma splice_nth:
  assumes "length row = W" "length seg = w" "sx + w \<le> W" "c < W"
  shows "(take sx row @ seg @ drop (sx + w) row) ! c =
           (if sx \<le> c \<and> c < sx + w then seg ! (c - sx) else row ! c)"
proof -
  have l: "length (take sx row) = sx" using assms by simp
  consider "c < sx" | "sx \<le> c" "c < sx + w" | "sx + w \<le> c" by linarith
  then show ?thesis
  proof cases
    case 1
    then show ?thesis using l by (simp add: nth_append)
  next
    case 2
    then have "c - sx < w" by linarith
    then show ?thesis using 2 l assms by (simp add: nth_append)
  next
    case 3
    then have n: "\<not> c < sx" "\<not> c - sx < w" by linarith+
    have "(take sx row @ seg @ drop (sx + w) row) ! c = drop (sx + w) row ! (c - sx - w)"
      using n l assms(2) by (simp add: nth_append)
    also have "\<dots> = row ! (sx + w + (c - sx - w))" using assms 3 by (intro nth_drop) simp
    also have "sx + w + (c - sx - w) = c" using 3 by linarith
    finally show ?thesis using 3 by simp
  qed
qed

lemma set_block_shape:
  assumes "shape2 res H W" "shape2 tile h w" "sy + h \<le> H" "sx + w \<le> W"
  shows "shape2 (set_block res sy (sy + h) sx (sx + w) tile) H W"
  using assms unfolding shape2_def set_block_def by (auto simp: splice_length)

lemma set_block_px:
  assumes "shape2 res H W" "shape2 tile h w" "sy + h \<le> H" "sx + w \<le> W" "r < H" "c < W"
  shows "set_block res sy (sy + h) sx (sx + w) tile ! r ! c =
           (if sy \<le> r \<and> r < sy + h \<and> sx \<le> c \<and> c < sx + w
            then tile ! (r - sy) ! (c - sx) else res ! r ! c)"
proof (cases "sy \<le> r \<and> r < sy + h")
  case True
  then have "r - sy < h" by linarith
  then have t: "length (tile ! (r - sy)) = w" using assms(2) by (simp add: shape2_def)
  have rw: "length (res ! r) = W" using assms(1,5) by (simp add: shape2_def)
  have "set_block res sy (sy + h) sx (sx + w) tile ! r =
          take sx (res ! r) @ tile ! (r - sy) @ drop (sx + w) (res ! r)"
    using True assms(1,5) by (simp add: set_block_def shape2_def)
  then show ?thesis using True splice_nth[OF rw t assms(4,6)] by simp
next
  case False
  then show ?thesis using assms(1,5) by (auto simp: set_block_def shape2_def)
qed

lemma block_index:
  fixes j w c :: nat
  assumes "j * w \<le> c" "c < j * w + w"
  shows "c div w = j" "c mod w = c - j * w"
proof -
  have "w * j \<le> c" "c < w * Suc j" using assms by (simp_all add: mult.commute)
  then show d: "c div w = j" by (rule div_nat_eqI)
  show "c mod w = c - j * w"
    unfolding modulo_nat_def d by (simp add: mult.commute)
qed

lemma tile_row_fold:
  fixes ms :: "mask2d list"
  assumes res: "shape2 res (n * h) (n * w)"
    and tiles: "\<forall>k<n * n. shape2 (ms ! k) h w"
    and y: "y < n"
  shows "j \<le> n \<Longrightarrow>
         shape2 (fold (\<lambda>x. paste_tile ms n h w y x) [0..<j] res) (n * h) (n * w) \<and>
         (\<forall>r<n * h. \<forall>c<n * w.
            fold (\<lambda>x. paste_tile ms n h w y x) [0..<j] res ! r ! c =
              (if y * h \<le> r \<and> r < y * h + h \<and> c < j * w
               then ms ! (y * n + c div w) ! (r - y * h) ! (c mod w)
               else res ! r ! c))"
proof (induction j)
  case 0
  then show ?case using res by simp
next
  case (Suc j)
  let ?prev = "fold (\<lambda>x. paste_tile ms n h w y x) [0..<j] res"
  let ?tile = "ms ! (y * n + j)"
  have jn: "j < n" using Suc.prems by simp
  have IH: "shape2 ?prev (n * h) (n * w)"
    "\<And>r c. r < n * h \<Longrightarrow> c < n * w \<Longrightarrow>
       ?prev ! r ! c = (if y * h \<le> r \<and> r < y * h + h \<and> c < j * w
               then ms ! (y * n + c div w) ! (r - y * h) ! (c mod w)
               else res ! r ! c)"
    using Suc.IH jn by simp_all
  have "y * n + j < y * n + n" using jn by simp
  also have "\<dots> = Suc y * n" by simp
  also have "\<dots> \<le> n * n" using y by (intro mult_le_mono1) simp
  finally have t: "shape2 ?tile h w" using tiles by simp
  have "Suc y * h \<le> n * h" using y by (intro mult_le_mono1) simp
  then have bnd_y: "y * h + h \<le> n * h" by simp
  have "Suc j * w \<le> n * w" using jn by (intro mult_le_mono1) simp
  then have bnd_x: "j * w + w \<le> n * w" by simp
  have step: "fold (\<lambda>x. paste_tile ms n h w y x) [0..<Suc j] res =
              set_block ?prev (y * h) (y * h + h) (j * w) (j * w + w) ?tile"
    by (simp add: paste_tile_def add.commute)
  have sh: "shape2 (fold (\<lambda>x. paste_tile ms n h w y x) [0..<Suc j] res) (n * h) (n * w)"
    unfolding step using IH(1) t bnd_y bnd_x by (rule set_block_shape)
  have px: "fold (\<lambda>x. paste_tile ms n h w y x) [0..<Suc j] res ! r ! c =
              (if y * h \<le> r \<and> r < y * h + h \<and> c < Suc j * w
               then ms ! (y * n + c div w) ! (r - y * h) ! (c mod w)
               else res ! r ! c)" if r: "r < n * h" and c: "c < n * w" for r c
  proof -
    have e: "set_block ?prev (y * h) (y * h + h) (j * w) (j * w + w) ?tile ! r ! c =
          (if y * h \<le> r \<and> r < y * h + h \<and> j * w \<le> c \<and> c < j * w + w
           then ?tile ! (r - y * h) ! (c - j * w) else ?prev ! r ! c)"
      using IH(1) t bnd_y bnd_x r c by (rule set_block_px)
    show ?thesis
    proof (cases "y * h \<le> r \<and> r < y * h + h \<and> j * w \<le> c \<and> c < j * w + w")
      case True
      then have "c div w = j" "c mod w = c - j * w" by (simp_all add: block_index)
      then show ?thesis using True e step by simp
    next
      case False
      then have q: "(y * h \<le> r \<and> r < y * h + h \<and> c < Suc j * w) =
                 (y * h \<le> r \<and> r < y * h + h \<and> c < j * w)"
        by auto
      have "fold (\<lambda>x. paste_tile ms n h w y x) [0..<Suc j] res ! r ! c = ?prev ! r ! c"
        unfolding step e using False by (simp only: if_False)
      also have "\<dots> = (if y * h \<le> r \<and> r < y * h + h \<and> c < j * w
               then ms ! (y * n + c div w) ! (r - y * h) ! (c mod w)
               else res ! r ! c)"
        by (rule IH(2)[OF r c])
      finally show ?thesis by (simp only: q)
    qed
  qed
  show ?case using sh px by blast
qed

lemma montage_fold:
  fixes ms :: "mask2d list"
  assumes res: "shape2 res (n * h) (n * w)"
    and tiles: "\<forall>k<n * n. shape2 (ms ! k) h w"
  shows "i \<le> n \<Longrightarrow>
         shape2 (fold (\<lambda>y. fold (\<lambda>x. paste_tile ms n h w y x) [0..<n]) [0..<i] res) (n * h) (n * w) \<and>
         (\<forall>r<n * h. \<forall>c<n * w.
            fold (\<lambda>y. fold (\<lambda>x. paste_tile ms n h w y x) [0..<n]) [0..<i] res ! r ! c =
              (if r < i * h
               then ms ! (r div h * n + c div w) ! (r mod h) ! (c mod w)
               else res ! r ! c))"
proof (induction i)
  case 0
  then show ?case using res by simp
next
  case (Suc i)
  let ?prev = "fold (\<lambda>y. fold (\<lambda>x. paste_tile ms n h w y x) [0..<n]) [0..<i] res"
  let ?next = "fold (\<lambda>y. fold (\<lambda>x. paste_tile ms n h w y x) [0..<n]) [0..<Suc i] res"
  have i: "i < n" using Suc.prems by simp
  have IH: "shape2 ?prev (n * h) (n * w)"
    "\<And>r c. r < n * h \<Longrightarrow> c < n * w \<Longrightarrow>
       ?prev ! r ! c = (if r < i * h
               then ms ! (r div h * n + c div w) ! (r mod h) ! (c mod w)
               else res ! r ! c)"
    using Suc.IH i by simp_all
  have step: "?next = fold (\<lambda>x. paste_tile ms n h w i x) [0..<n] ?prev" by simp
  note row = tile_row_fold[OF IH(1) tiles i, of n, simplified]
  have sh: "shape2 ?next (n * h) (n * w)" unfolding step using row by blast
  have px: "?next ! r ! c =
              (if r < Suc i * h
               then ms ! (r div h * n + c div w) ! (r mod h) ! (c mod w)
               else res ! r ! c)" if r: "r < n * h" and c: "c < n * w" for r c
  proof -
    have e: "?next ! r ! c =
          (if i * h \<le> r \<and> r < i * h + h
           then ms ! (i * n + c div w) ! (r - i * h) ! (c mod w) else ?prev ! r ! c)"
      unfolding step using row r c by simp
    show ?thesis
    proof (cases "i * h \<le> r \<and> r < i * h + h")
      case True
      then have "r div h = i" "r mod h = r - i * h" by (simp_all add: block_index)
      then show ?thesis using True e by simp
    next
      case False
      have "?next ! r ! c = ?prev ! r ! c"
        unfolding e using False by (simp only: if_False)
      also have "\<dots> = (if r < i * h
               then ms ! (r div h * n + c div w) ! (r mod h) ! (c mod w)
               else res ! r ! c)"
        by (rule IH(2)[OF r c])
      also have "(r < i * h) = (r < Suc i * h)" using False by auto
      finally show ?thesis .
    qed
  qed
  show ?case using sh px by blast
qed

lemma zeros_shape: "shape2 (zeros h w) h w"
  by (simp add: shape2_def zeros_def)

lemma zeros_px: "r < h \<Longrightarrow> c < w \<Longrightarrow> zeros h w ! r ! c = 0"
  by (simp add: zeros_def)

lemma padded_masks:
  fixes ts :: "mask2d list"
  assumes "k < N"
  shows "(if length (take N ts) < N
          then take N ts @ drop (length (take N ts)) (replicate N Z)
          else take N ts) ! k = (if k < length ts then ts ! k else Z)"
  using assms by (auto simp: nth_append)

lemma tensor_ok_shape: "tensor_ok D \<Longrightarrow> k < length (mdata D) \<Longrightarrow> shape2 (mdata D ! k) (mheight D) (mwidth D)"
  by (auto simp: tensor_ok_def shape2_def list_all_length)

lemma montage_tiles_char:
  assumes ok: "tensor_ok D"
  shows "shape2 (montage_tiles n D) (n * mheight D) (n * mwidth D) \<and>
         (\<forall>r<n * mheight D. \<forall>c<n * mwidth D.
            montage_tiles n D ! r ! c =
              (if r div mheight D * n + c div mwidth D < length (mdata D)
               then mdata D ! (r div mheight D * n + c div mwidth D) ! (r mod mheight D) ! (c mod mwidth D)
               else 0))"
proof -
  let ?h = "mheight D" and ?w = "mwidth D" and ?ts = "mdata D"
  let ?Z = "zeros ?h ?w"
  define ms where "ms = (if length (take (n ^ 2) ?ts) < n ^ 2
              then take (n ^ 2) ?ts @ drop (length (take (n ^ 2) ?ts)) (replicate (n ^ 2) ?Z)
              else take (n ^ 2) ?ts)"
  have N: "n ^ 2 = n * n" by (simp add: power2_eq_square)
  have nth: "ms ! k = (if k < length ?ts then ?ts ! k else ?Z)" if "k < n * n" for k
    unfolding ms_def using that by (intro padded_masks) (simp add: N)
  have tiles: "\<forall>k<n * n. shape2 (ms ! k) ?h ?w"
    using nth tensor_ok_shape[OF ok] zeros_shape by simp
  have m: "montage_tiles n D =
          fold (\<lambda>y. fold (\<lambda>x. paste_tile ms n ?h ?w y x) [0..<n]) [0..<n] (zeros (n * ?h) (n * ?w))"
    by (simp add: montage_tiles_def Let_def ms_def)
  have f: "shape2 (montage_tiles n D) (n * ?h) (n * ?w) \<and>
         (\<forall>r<n * ?h. \<forall>c<n * ?w.
            montage_tiles n D ! r ! c =
              (if r < n * ?h
               then ms ! (r div ?h * n + c div ?w) ! (r mod ?h) ! (c mod ?w)
               else zeros (n * ?h) (n * ?w) ! r ! c))"
    unfolding m by (rule montage_fold[OF zeros_shape tiles order_refl])
  have px: "montage_tiles n D ! r ! c =
              (if r div ?h * n + c div ?w < length ?ts
               then ?ts ! (r div ?h * n + c div ?w) ! (r mod ?h) ! (c mod ?w)
               else 0)" if r: "r < n * ?h" and c: "c < n * ?w" for r c
  proof -
    have h0: "0 < ?h" and w0: "0 < ?w" using r c by (auto intro: gr0I)
    have "r div ?h < n" using r h0 by (simp add: less_mult_imp_div_less mult.commute)
    moreover have "c div ?w < n" using c w0 by (simp add: less_mult_imp_div_less mult.commute)
    ultimately have a: "r div ?h * n + c div ?w < r div ?h * n + n" and b: "Suc (r div ?h) \<le> n"
      by simp_all
    have "Suc (r div ?h) * n \<le> n * n" using b by (rule mult_le_mono1)
    then have "r div ?h * n + n \<le> n * n" by simp
    with a have k: "r div ?h * n + c div ?w < n * n" by linarith
    have "montage_tiles n D ! r ! c = ms ! (r div ?h * n + c div ?w) ! (r mod ?h) ! (c mod ?w)"
      using f r c by simp
    also have "\<dots> = (if r div ?h * n + c div ?w < length ?ts
               then ?ts ! (r div ?h * n + c div ?w) ! (r mod ?h) ! (c mod ?w)
               else ?Z ! (r mod ?h) ! (c mod ?w))"
      by (simp only: nth[OF k] if_distrib[of "\<lambda>t. t ! (r mod ?h) ! (c mod ?w)"])
    also have "?Z ! (r mod ?h) ! (c mod ?w) = 0" using h0 w0 by (simp add: zeros_px)
    finally show ?thesis .
  qed
  show ?thesis using f px by blast
qed

lemma shape2_eqI:
  assumes "shape2 a H W" "shape2 b H W" "\<forall>r<H. \<forall>c<W. a ! r ! c = b ! r ! c"
  shows "a = b"
proof (rule nth_equalityI)
  show "length a = length b" using assms by (simp add: shape2_def)
next
  fix r assume "r < length a"
  then have r: "r < H" using assms(1) by (simp add: shape2_def)
  show "a ! r = b ! r"
  proof (rule nth_equalityI)
    show "length (a ! r) = length (b ! r)" using assms r by (simp add: shape2_def)
  next
    fix c assume "c < length (a ! r)"
    then have "c < W" using assms(1) r by (simp add: shape2_def)
    then show "a ! r ! c = b ! r ! c" using assms(3) r by simp
  qed
qed

lemma montage_tiles_no_masks:
  assumes "tensor_ok D" "mdata D = []"
  shows "montage_tiles n D = zeros (n * mheight D) (n * mwidth D)"
proof (rule shape2_eqI)
  show "shape2 (montage_tiles n D) (n * mheight D) (n * mwidth D)"
    using montage_tiles_char[OF assms(1)] by blast
  show "shape2 (zeros (n * mheight D) (n * mwidth D)) (n * mheight D) (n * mwidth D)"
    by (rule zeros_shape)
  show "\<forall>r<n * mheight D. \<forall>c<n * mwidth D.
          montage_tiles n D ! r ! c = zeros (n * mheight D) (n * mwidth D) ! r ! c"
    using montage_tiles_char[OF assms(1), of n] by (simp add: assms(2) zeros_px)
qed

section \<open>Claims about rendering and the pipeline\<close>

text \<open>
  Claim C5.  For a set that carries masks, \<^verbatim>\<open>overlay_mask\<close> returns the areas of the first
  \<open>length (colormap api)\<close> masks, in input order, each the number of entries equal to 1 of
  its mask (0 for an empty mask).  The loop pairs masks with colours by \<^verbatim>\<open>zip\<close>, so a set with
  more detections than the colour table has entries gets fewer areas than detections.
\<close>

theorem overlay_mask_areas:
  assumes "mask P = Some m"
  shows "\<exists>out. overlay_mask api img P =
           Inr (out, map count_ones (take (length (colormap api)) (mdata m)))"
  using assms by (simp add: overlay_mask_def mask_loop_char Let_def)

theorem overlay_mask_areas_witness:
  "mask ex_dets_masks = Some ex_masks \<and>
   (\<exists>out. overlay_mask ex_api ex_canvas ex_dets_masks =
           Inr (out, map count_ones (take (length (colormap ex_api)) (mdata ex_masks)))) \<and>
   map count_ones (take (length (colormap ex_api)) (mdata ex_masks)) = [1, 4] \<and>
   boxlist_len ex_dets_masks = 3"
proof -
  have h: "mask ex_dets_masks = Some ex_masks" by (simp add: ex_dets_masks_def)
  have a: "map count_ones (take (length (colormap ex_api)) (mdata ex_masks)) = [1, 4]"
    by (simp add: ex_api_def ex_masks_def count_ones_def)
  have n: "boxlist_len ex_dets_masks = 3"
    by (simp add: boxlist_len_def ex_dets_masks_def ex_dets_def)
  show ?thesis using overlay_mask_areas[OF h, of ex_api ex_canvas] h a n by blast
qed

text \<open>
  Claim C6.  The two paths for an empty detection result return different things: an empty
  list from the detector gives the triple of line 159, whose dictionary has no \<^verbatim>\<open>area\<close> key;
  a first image with zero detections gives the pair of line 163, whose dictionary has the
  key \<^verbatim>\<open>area\<close> and whose second component is the input batch.
\<close>

theorem run_empty_paths:
  "(detector api imgs = ([], z) \<longrightarrow>
      run_on_opencv_image api self imgs =
        Inr (Ret_results_data_zeros []
               [\<lparr> rd_masks = [], rd_class_ids = [], rd_rois = [], rd_scores = [],
                  rd_area = None \<rparr>] z)) \<and>
   (detector api imgs = (P # rest, z) \<and> boxlist_len P = 0 \<longrightarrow>
      run_on_opencv_image api self imgs =
        Inr (Ret_dict_image
               \<lparr> rd_masks = [], rd_class_ids = [], rd_rois = [], rd_scores = [],
                 rd_area = Some [] \<rparr> imgs))"
  by (simp add: run_on_opencv_image_def)

theorem run_empty_paths_witness:
  "detector ex_api [ex_canvas] = ([], ()) \<and>
   run_on_opencv_image ex_api ex_config [ex_canvas] =
     Inr (Ret_results_data_zeros []
            [\<lparr> rd_masks = [], rd_class_ids = [], rd_rois = [], rd_scores = [],
               rd_area = None \<rparr>] ()) \<and>
   detector (ex_api\<lparr>detector := \<lambda>imgs. ([ex_no_dets], ())\<rparr>) [ex_canvas] = (ex_no_dets # [], ()) \<and>
   boxlist_len ex_no_dets = 0 \<and>
   run_on_opencv_image (ex_api\<lparr>detector := \<lambda>imgs. ([ex_no_dets], ())\<rparr>) ex_config [ex_canvas] =
     Inr (Ret_dict_image
            \<lparr> rd_masks = [], rd_class_ids = [], rd_rois = [], rd_scores = [],
              rd_area = Some [] \<rparr> [ex_canvas])"
proof -
  have a: "detector ex_api [ex_canvas] = ([], ())" by (simp add: ex_api_def)
  have b: "detector (ex_api\<lparr>detector := \<lambda>imgs. ([ex_no_dets], ())\<rparr>) [ex_canvas] = (ex_no_dets # [], ())"
    by simp
  have c: "boxlist_len ex_no_dets = 0" by (simp add: boxlist_len_def ex_no_dets_def)
  show ?thesis
    using run_empty_paths[of ex_api "[ex_canvas]" "()" ex_config ex_no_dets "[]"]
      run_empty_paths[of "ex_api\<lparr>detector := \<lambda>imgs. ([ex_no_dets], ())\<rparr>" "[ex_canvas]" "()"
         ex_config ex_no_dets "[]"] a b c
    by blast
qed

text \<open>
  Claim C7.  With the mask field present, \<^verbatim>\<open>masks_per_dim\<close> \<open>n > 0\<close> and a downsampled
  tensor \<open>D\<close> of regular shape, the montage is the colour map applied to a grid of
  \<open>n * mheight D\<close> rows and \<open>n * mwidth D\<close> columns in which the block at grid row \<open>y\<close> and
  grid column \<open>x\<close> is mask \<open>y * n + x\<close> of \<open>D\<close> when there is one, and zero otherwise.  With
  no masks the grid is all zero.
\<close>

theorem create_mask_montage_grid:
  assumes "mask P = Some m0" and "n = masks_per_dim self" and "0 < n"
    and "D = interpolate api n m0" and "tensor_ok D"
  shows "create_mask_montage api self img P = Inr (applyColorMap api (montage_tiles n D)) \<and>
         shape2 (montage_tiles n D) (n * mheight D) (n * mwidth D) \<and>
         (\<forall>r<n * mheight D. \<forall>c<n * mwidth D.
            montage_tiles n D ! r ! c =
              (if r div mheight D * n + c div mwidth D < length (mdata D)
               then mdata D ! (r div mheight D * n + c div mwidth D)
                      ! (r mod mheight D) ! (c mod mwidth D)
               else 0)) \<and>
         (mdata D = [] \<longrightarrow> montage_tiles n D = zeros (n * mheight D) (n * mwidth D))"
proof -
  have "create_mask_montage api self img P = Inr (applyColorMap api (montage_tiles n D))"
    using assms(1-4) by (simp add: create_mask_montage_def)
  moreover note montage_tiles_char[OF assms(5), of n]
  moreover have "mdata D = [] \<longrightarrow> montage_tiles n D = zeros (n * mheight D) (n * mwidth D)"
    using assms(5) by (simp add: montage_tiles_no_masks)
  ultimately show ?thesis by blast
qed

theorem create_mask_montage_grid_witness:
  "mask ex_wide = Some \<lparr> mheight = 2, mwidth = 4,
       mdata = [[[1, 0, 2, 0], [0, 0, 0, 0]], [[3, 0, 4, 0], [0, 0, 0, 0]],
                [[5, 0, 6, 0], [0, 0, 0, 0]]] \<rparr> \<and>
   (2::nat) = masks_per_dim ex_config \<and> (0::nat) < 2 \<and>
   tensor_ok \<lparr> mheight = 1, mwidth = 2, mdata = [[[1, 2]], [[3, 4]], [[5, 6]]] \<rparr> \<and>
   create_mask_montage ex_api ex_config ex_canvas ex_wide =
     Inr (applyColorMap ex_api
            (montage_tiles 2 \<lparr> mheight = 1, mwidth = 2, mdata = [[[1, 2]], [[3, 4]], [[5, 6]]] \<rparr>)) \<and>
   montage_tiles 2 \<lparr> mheight = 1, mwidth = 2, mdata = [[[1, 2]], [[3, 4]], [[5, 6]]] \<rparr>
     = [[1, 2, 3, 4], [5, 6, 0, 0]]"
proof -
  let ?m0 = "\<lparr> mheight = 2, mwidth = 4,
       mdata = [[[1, 0, 2, 0], [0, 0, 0, 0]], [[3, 0, 4, 0], [0, 0, 0, 0]],
                [[5, 0, 6, 0], [0, 0, 0, 0]]] \<rparr>"
  let ?D = "\<lparr> mheight = 1, mwidth = 2, mdata = [[[1, 2]], [[3, 4]], [[5, 6]]] \<rparr>"
  have a: "mask ex_wide = Some ?m0" by (simp add: ex_wide_def)
  have b: "(2::nat) = masks_per_dim ex_config" by (simp add: ex_config_def)
  have c: "(0::nat) < 2" by simp
  have d: "?D = interpolate ex_api 2 ?m0" by code_simp
  have e: "tensor_ok ?D" by (simp add: tensor_ok_def)
  have f: "montage_tiles 2 ?D = [[1, 2, 3, 4], [5, 6, 0, 0]]" by code_simp
  show ?thesis
    using create_mask_montage_grid[OF a b c d e, of ex_canvas] a b c e f by blast
qed

text \<open>
  Claim C8, as amended.  \<^verbatim>\<open>overlay_boxes\<close> returns the buffer it was given, leaves every
  other buffer as it was, and draws on the given buffer itself: for a set with no more
  detections than the colour table has entries, the rectangle of the detection at position
  \<open>k\<close> is drawn with the colour at index \<open>k mod length (colormap api)\<close>, in input order.
\<close>

theorem overlay_boxes_in_place:
  assumes "length (bbox P) \<le> length (colormap api)"
  shows "snd (overlay_boxes api s a P) = a \<and>
         (\<forall>b. b \<noteq> a \<longrightarrow> fst (overlay_boxes api s a P) b = s b) \<and>
         fst (overlay_boxes api s a P) a =
           fold (\<lambda>k. draw_box api (bbox P ! k) (colormap api ! (k mod length (colormap api))))
                [0..<length (bbox P)] (s a)"
  by (simp add: overlay_boxes_char[OF assms])

theorem overlay_boxes_in_place_witness:
  "length (bbox ex_one_box) \<le> length (colormap ex_api) \<and>
   snd (overlay_boxes ex_api (\<lambda>a. ex_canvas) 0 ex_one_box) = 0 \<and>
   fst (overlay_boxes ex_api (\<lambda>a. ex_canvas) 0 ex_one_box) 0 =
     fold (\<lambda>k. draw_box ex_api (bbox ex_one_box ! k)
                  (colormap ex_api ! (k mod length (colormap ex_api))))
          [0..<length (bbox ex_one_box)] ex_canvas"
proof -
  have h: "length (bbox ex_one_box) \<le> length (colormap ex_api)"
    by (simp add: ex_one_box_def ex_api_def)
  show ?thesis
    using overlay_boxes_in_place[OF h, of "\<lambda>a. ex_canvas" 0] h by simp
qed

text \<open>
  Against C8 as written: the buffer passed to \<^verbatim>\<open>overlay_boxes\<close> holds a rectangle after the
  call that it did not hold before.
\<close>

theorem overlay_boxes_mutates_counterexample:
  "(\<lambda>a. ex_canvas) (0::nat) = ([[0, 0, 0], [0, 0, 0], [0, 0, 0]], []) \<and>
   fst (overlay_boxes ex_api (\<lambda>a. ex_canvas) 0 ex_one_box) 0
     = ([[1, 1, 1], [1, 0, 1], [1, 1, 1]], [])"
  by (simp add: render_eval)

text \<open>
  Claim C10.  When \<^verbatim>\<open>run_on_opencv_image\<close> returns rendered images (line 182), there is one
  per detection set, and each is the result of the label overlay with scores forced on,
  applied after the label overlay with the configured flag when \<^verbatim>\<open>display_text\<close> is set.
\<close>

theorem run_labels_with_scores:
  assumes "run_on_opencv_image api self imgs = Inr (Ret_data_results_zeros datas results z)"
  shows "length results = length (fst (detector api imgs)) \<and>
         (\<forall>k<length results. \<exists>sel.
            select_top_predictions (tensor_sort api) (confidence_threshold self)
              (fst (detector api imgs) ! k) = Inr sel \<and>
            labels_drawn api self sel (results ! k))"
proof -
  obtain preds z0 where d: "detector api imgs = (preds, z0)" by (cases "detector api imgs")
  have "run_loop api self imgs z0 0 preds [] [] = Inr (Ret_data_results_zeros datas results z)"
    using assms by (simp add: run_on_opencv_image_def d split: if_splits)
  from run_loop_labels[OF this] show ?thesis by (simp add: d)
qed

theorem run_labels_with_scores_witness:
  "run_on_opencv_image ex_run_api ex_config [ex_canvas] =
     Inr (Ret_data_results_zeros ex_rendered_data ex_rendered ()) \<and>
   \<not> display_text ex_config \<and> \<not> display_score ex_config \<and>
   length ex_rendered = length (fst (detector ex_run_api [ex_canvas])) \<and>
   (\<exists>sel.
      select_top_predictions (tensor_sort ex_run_api) (confidence_threshold ex_config)
        (fst (detector ex_run_api [ex_canvas]) ! 0) = Inr sel \<and>
      labels_drawn ex_run_api ex_config sel (ex_rendered ! 0))"
proof -
  have f: "\<not> display_text ex_config" "\<not> display_score ex_config"
    by (simp_all add: ex_config_def)
  have k: "0 < length ex_rendered" by (simp add: ex_rendered_def)
  note t = run_labels_with_scores[OF ex_run]
  show ?thesis
    by (intro conjI)
       (rule ex_run f t[THEN conjunct1] t[THEN conjunct2, rule_format, OF k])+
qed

end
